(* ===== verification/Prelude.thy ===== *)
theory Prelude
  imports Main "HOL-Library.Word" "HOL-Library.Multiset"
begin

text \<open>
  What every theory of the development shares: the machine-integer types of the Rust code, the
  outcome of a Rust computation that can panic, the collections of simplification rules the
  component proofs use, and generic lemmas on lists, folds and multisets that no single component
  owns.
\<close>

section \<open>Machine integers\<close>

type_synonym u8 = "8 word"
type_synonym u16 = "16 word"
type_synonym u64 = "64 word"
type_synonym i32 = "32 word" \<comment> \<open>read with \<open>sint\<close>\<close>
type_synonym i64 = "64 word" \<comment> \<open>read with \<open>sint\<close>\<close>
type_synonym bytes = "u8 list"

section \<open>Computations that can panic\<close>

text \<open>
  A Rust function that may panic (an index out of range, a string sliced inside a character, an
  \<open>expect\<close> that fails) returns \<open>Panic\<close>; a function that returns gives \<open>Ret\<close>.
\<close>

datatype 'a rust = Ret 'a | Panic

definition bind_rust :: "'a rust \<Rightarrow> ('a \<Rightarrow> 'b rust) \<Rightarrow> 'b rust" where
  "bind_rust m f = (case m of Ret x \<Rightarrow> f x | Panic \<Rightarrow> Panic)"

definition returns :: "'a rust \<Rightarrow> bool" where
  "returns m = (case m of Ret _ \<Rightarrow> True | Panic \<Rightarrow> False)"

named_theorems rust_simps \<open>equations that evaluate the model's combinators\<close>

lemma bind_rust_simps [simp, rust_simps]:
  "bind_rust (Ret x) f = f x"
  "bind_rust Panic f = Panic"
  by (simp_all add: bind_rust_def)

lemma returns_simps [simp, rust_simps]: "returns (Ret x)" "\<not> returns Panic"
  by (simp_all add: returns_def)

lemma returns_iff: "returns m \<longleftrightarrow> (\<exists>x. m = Ret x)"
  by (cases m) auto

lemma bind_rust_Ret_iff: "bind_rust m f = Ret y \<longleftrightarrow> (\<exists>x. m = Ret x \<and> f x = Ret y)"
  by (cases m) auto

lemma bind_rust_Panic_iff:
  "bind_rust m f = Panic \<longleftrightarrow> m = Panic \<or> (\<exists>x. m = Ret x \<and> f x = Panic)"
  by (cases m) auto

lemma bind_rust_assoc: "bind_rust (bind_rust m f) g = bind_rust m (\<lambda>x. bind_rust (f x) g)"
  by (cases m) auto

section \<open>Sizes: \<open>usize\<close> kept as a natural number below \<open>2 ^ 64\<close>\<close>

text \<open>\<open>fetch_add\<close> and \<open>fetch_sub\<close> on an \<open>AtomicUsize\<close> wrap around.\<close>

definition usize_add :: "nat \<Rightarrow> nat \<Rightarrow> nat" where
  "usize_add a b = (a + b) mod 2 ^ 64"

definition usize_sub :: "nat \<Rightarrow> nat \<Rightarrow> nat" where
  "usize_sub a b = (a + (2 ^ 64 - b)) mod 2 ^ 64"

lemma usize_add_small [simp]: "a + b < 2 ^ 64 \<Longrightarrow> usize_add a b = a + b"
  by (simp add: usize_add_def)

lemma usize_sub_small [simp]: "b \<le> a \<Longrightarrow> a < 2 ^ 64 \<Longrightarrow> usize_sub a b = a - b"
proof -
  assume ab: "b \<le> a" "a < 2 ^ 64"
  then have "a + (2 ^ 64 - b) = (a - b) + 2 ^ 64" by simp
  then have "usize_sub a b = ((a - b) + 2 ^ 64) mod 2 ^ 64" by (simp only: usize_sub_def)
  also have "\<dots> = a - b" using ab by (subst mod_add_self2) simp
  finally show ?thesis .
qed

lemma usize_sub_add [simp]: "a < 2 ^ 64 \<Longrightarrow> usize_sub (usize_add a (Suc 0)) (Suc 0) = a"
  by (simp add: usize_sub_def usize_add_def mod_simps)

section \<open>Lists\<close>

lemma dropWhile_idle: "xs = [] \<or> \<not> P (hd xs) \<Longrightarrow> dropWhile P xs = xs"
  by (cases xs) auto

lemma hd_dropWhile_not: "dropWhile P xs = [] \<or> \<not> P (hd (dropWhile P xs))"
  by (induction xs) auto

lemma take_append_exact [simp]: "n = length xs \<Longrightarrow> take n (xs @ ys) = xs"
  by simp

lemma drop_append_exact [simp]: "n = length xs \<Longrightarrow> drop n (xs @ ys) = ys"
  by simp

lemma take_eq_mono: "take m xs = take m ys \<Longrightarrow> k \<le> m \<Longrightarrow> take k xs = take k ys"
  by (metis min.absorb1 take_take)

lemma slice_eq_mono:
  "take m xs = take m ys \<Longrightarrow> n + k \<le> m \<Longrightarrow> take k (drop n xs) = take k (drop n ys)"
proof -
  assume "take m xs = take m ys" "n + k \<le> m"
  then have "drop n (take (n + k) xs) = drop n (take (n + k) ys)" by (metis take_eq_mono)
  then show ?thesis by (simp add: drop_take)
qed

text \<open>A piece of a concatenation, by its offset.\<close>

lemma take_drop_concat:
  "i < length xs \<Longrightarrow>
   take (length (xs ! i)) (drop (sum_list (map length (take i xs))) (concat xs @ ys)) = xs ! i"
proof (induction xs arbitrary: i)
  case (Cons x xs)
  then show ?case by (cases i) (auto simp: drop_append)
qed simp

lemma sorted_of_mem_sort_key [simp]: "set (sort_key f xs) = set xs"
  by simp

lemma filter_eq_distinct:
  "distinct xs \<Longrightarrow> filter (\<lambda>x. x = k) xs = (if k \<in> set xs then [k] else [])"
  by (induction xs) auto

text \<open>A filter that splits a list in two parts keeps its multiset.\<close>

lemma map_filter_eq:
  "(\<And>x. x \<in> set xs \<Longrightarrow> f x = g x) \<Longrightarrow> List.map_filter f xs = List.map_filter g xs"
  by (induction xs) (simp_all add: List.map_filter_simps split: option.split)

lemma mset_partition:
  "mset (filter P xs) + mset (filter (\<lambda>x. \<not> P x) xs) = mset xs"
  by (induction xs) auto

lemma mset_concat_map_filter:
  assumes "distinct ks" and "\<forall>x \<in> set xs. key x \<in> set ks"
  shows "mset (concat (map (\<lambda>k. filter (\<lambda>x. key x = k) xs) ks)) = mset xs"
  using assms
proof (induction ks arbitrary: xs)
  case Nil
  then show ?case by simp
next
  case (Cons k ks)
  let ?rest = "filter (\<lambda>x. key x \<noteq> k) xs"
  have same: "map (\<lambda>j. filter (\<lambda>x. key x = j) xs) ks
      = map (\<lambda>j. filter (\<lambda>x. key x = j) ?rest) ks"
    using Cons.prems(1) by (auto intro!: map_cong filter_cong)
  have "\<forall>x \<in> set ?rest. key x \<in> set ks"
    using Cons.prems(2) by auto
  moreover have "distinct ks" using Cons.prems(1) by simp
  ultimately have "mset (concat (map (\<lambda>j. filter (\<lambda>x. key x = j) ?rest) ks)) = mset ?rest"
    using Cons.IH by blast
  then show ?case
    using mset_partition [of "\<lambda>x. key x = k" xs] by (simp only: same list.map concat.simps mset_append)
qed

lemma subseteq_add_mset: "A \<subseteq># M \<Longrightarrow> A \<subseteq># add_mset d M"
  by (metis add_mset_add_single mset_subset_eq_add_left subset_mset.trans)

section \<open>Signed readings of words\<close>

lemma unat_u8_of_nat [simp]: "n < 256 \<Longrightarrow> unat (word_of_nat n :: u8) = n"
  by (simp add: unsigned_of_nat take_bit_nat_eq_self)

lemma u8_eq_iff: "(x :: u8) = y \<longleftrightarrow> unat x = unat y"
  by (simp add: word_unat_eq_iff)

lemma sint_plus_in_range:
  fixes x y :: "'a::len word"
  assumes "- (2 ^ (LENGTH('a) - 1)) \<le> sint x + sint y"
    and "sint x + sint y < 2 ^ (LENGTH('a) - 1)"
  shows "sint (x + y) = sint x + sint y"
  using assms by (simp add: sint_word_ariths signed_take_bit_int_eq_self)

lemma sint_of_int_in_range:
  assumes "- (2 ^ (LENGTH('a) - 1)) \<le> n" and "n < 2 ^ (LENGTH('a) - 1)"
  shows "sint (word_of_int n :: 'a::len word) = n"
  using assms by (simp add: sint_sbintrunc' signed_take_bit_int_eq_self)

end
