(* ===== verification/Rust_Str.thy ===== *)
theory Rust_Str
  imports Prelude
begin

text \<open>
  The part of the Rust standard library on strings that the program uses. A Rust \<open>String\<close> or
  \<open>&str\<close> is a list of Unicode scalar values; \<open>len()\<close> and range indexing count the bytes
  of its UTF-8 encoding, and indexing inside a character panics. Also here: \<open>trim\<close>, the decimal
  \<open>parse\<close> of signed and unsigned integers, and the decimal formatting \<open>format!\<close> does.
\<close>

type_synonym rchar = nat
type_synonym rstr = "rchar list"

definition lit :: "string \<Rightarrow> rstr" where
  "lit s = map of_char s"

section \<open>Characters\<close>

definition is_digit_char :: "rchar \<Rightarrow> bool" where
  "is_digit_char c \<longleftrightarrow> 48 \<le> c \<and> c \<le> 57"

definition is_alnum_char :: "rchar \<Rightarrow> bool" where
  "is_alnum_char c \<longleftrightarrow>
     is_digit_char c \<or> (65 \<le> c \<and> c \<le> 90) \<or> (97 \<le> c \<and> c \<le> 122)"

text \<open>\<open>char::is_whitespace\<close>: the Unicode property \<open>White_Space\<close>.\<close>

definition is_ws :: "rchar \<Rightarrow> bool" where
  "is_ws c \<longleftrightarrow>
     (9 \<le> c \<and> c \<le> 13) \<or> c = 32 \<or> c = 133 \<or> c = 160 \<or> c = 5760 \<or>
     (8192 \<le> c \<and> c \<le> 8202) \<or> c = 8232 \<or> c = 8233 \<or> c = 8239 \<or> c = 8287 \<or> c = 12288"

definition utf8_len :: "rchar \<Rightarrow> nat" where
  "utf8_len c = (if c < 128 then 1 else if c < 2048 then 2 else if c < 65536 then 3 else 4)"

text \<open>\<open>str::len\<close>: the number of bytes.\<close>

definition byte_len :: "rstr \<Rightarrow> nat" where
  "byte_len s = sum_list (map utf8_len s)"

definition encode_char :: "rchar \<Rightarrow> bytes" where
  "encode_char c =
     (if c < 128 then [word_of_nat c]
      else if c < 2048 then
        [word_of_nat (192 + c div 64), word_of_nat (128 + c mod 64)]
      else if c < 65536 then
        [word_of_nat (224 + c div 4096), word_of_nat (128 + c div 64 mod 64),
         word_of_nat (128 + c mod 64)]
      else
        [word_of_nat (240 + c div 262144), word_of_nat (128 + c div 4096 mod 64),
         word_of_nat (128 + c div 64 mod 64), word_of_nat (128 + c mod 64)])"

text \<open>\<open>str::as_bytes\<close>.\<close>

definition str_bytes :: "rstr \<Rightarrow> bytes" where
  "str_bytes s = concat (map encode_char s)"

definition ascii :: "rstr \<Rightarrow> bool" where
  "ascii s \<longleftrightarrow> (\<forall>c \<in> set s. c < 128)"

lemma utf8_len_pos [simp]: "0 < utf8_len c"
  by (simp add: utf8_len_def)

lemma length_encode_char [simp]: "length (encode_char c) = utf8_len c"
  by (simp add: encode_char_def utf8_len_def)

lemma length_str_bytes [simp]: "length (str_bytes s) = byte_len s"
  by (induction s) (simp_all add: str_bytes_def byte_len_def)

lemma byte_len_simps [simp]:
  "byte_len [] = 0"
  "byte_len (c # s) = utf8_len c + byte_len s"
  "byte_len (s @ t) = byte_len s + byte_len t"
  by (simp_all add: byte_len_def)

lemma byte_len_eq_0 [simp]: "byte_len s = 0 \<longleftrightarrow> s = []"
  by (cases s) auto

lemma length_le_byte_len: "length s \<le> byte_len s"
proof (induction s)
  case (Cons c s)
  moreover have "Suc 0 \<le> utf8_len c" using utf8_len_pos [of c] by (simp del: utf8_len_pos)
  ultimately show ?case by simp
qed simp

lemma ascii_simps [simp]:
  "ascii []" "ascii (c # s) \<longleftrightarrow> c < 128 \<and> ascii s" "ascii (s @ t) \<longleftrightarrow> ascii s \<and> ascii t"
  by (auto simp: ascii_def)

lemma ascii_byte_len: "ascii s \<Longrightarrow> byte_len s = length s"
  by (induction s) (auto simp: utf8_len_def)

lemma byte_len_ascii_iff: "byte_len s = length s \<longleftrightarrow> ascii s"
proof (induction s)
  case (Cons c s)
  have "length s \<le> byte_len s" by (rule length_le_byte_len)
  with Cons show ?case by (auto simp: utf8_len_def)
qed simp

section \<open>Trimming\<close>

definition trim :: "rstr \<Rightarrow> rstr" where
  "trim s = rev (dropWhile is_ws (rev (dropWhile is_ws s)))"

definition trim_start_matches :: "rchar \<Rightarrow> rstr \<Rightarrow> rstr" where
  "trim_start_matches c s = dropWhile (\<lambda>d. d = c) s"

definition trimmed :: "rstr \<Rightarrow> bool" where
  "trimmed s \<longleftrightarrow> s = [] \<or> (\<not> is_ws (hd s) \<and> \<not> is_ws (last s))"

lemma trim_Nil [simp]: "trim [] = []"
  by (simp add: trim_def)

lemma trimmed_trim: "trimmed s \<Longrightarrow> trim s = s"
  by (auto simp: trimmed_def trim_def dropWhile_idle hd_rev)

lemma dropWhile_last: "dropWhile P xs \<noteq> [] \<Longrightarrow> last (dropWhile P xs) = last xs"
  by (induction xs) auto

lemma trim_trimmed [simp]: "trimmed (trim s)"
proof (cases "trim s = []")
  case True
  then show ?thesis by (simp add: trimmed_def)
next
  case False
  let ?a = "dropWhile is_ws s" and ?b = "dropWhile is_ws (rev (dropWhile is_ws s))"
  from False have b: "?b \<noteq> []" by (simp add: trim_def)
  then have a: "?a \<noteq> []" by (metis dropWhile.simps(1) rev.simps(1))
  have "last (trim s) = hd ?b" using b by (simp add: trim_def last_rev)
  moreover have "\<not> is_ws (hd ?b)" using hd_dropWhile_not b by blast
  moreover have "hd (trim s) = hd ?a"
    using b dropWhile_last [of is_ws "rev ?a"] a by (simp add: trim_def hd_rev last_rev)
  moreover have "\<not> is_ws (hd ?a)" using hd_dropWhile_not a by blast
  ultimately show ?thesis by (simp add: trimmed_def)
qed

lemma trim_idem [simp]: "trim (trim s) = trim s"
  by (rule trimmed_trim) (rule trim_trimmed)

lemma trim_sub: "\<exists>p q. s = p @ trim s @ q"
proof -
  let ?a = "dropWhile is_ws s"
  have "s = takeWhile is_ws s @ ?a" by simp
  moreover have "?a = trim s @ rev (takeWhile is_ws (rev ?a))"
    by (metis rev_append rev_rev_ident takeWhile_dropWhile_id trim_def)
  ultimately show ?thesis by metis
qed

lemma set_trim: "set (trim s) \<subseteq> set s"
  by (metis trim_sub set_append Un_upper1 Un_upper2 order_trans)

lemma length_trim: "length (trim s) \<le> length s"
  by (metis trim_sub length_append add_leE le_add1 le_add2 order_trans)

lemma ascii_trim: "ascii s \<Longrightarrow> ascii (trim s)"
  using set_trim by (auto simp: ascii_def)

lemma trim_pad:
  assumes "trimmed s"
  shows "trim (s @ replicate k 32) = s"
proof -
  have ws: "is_ws 32" by (simp add: is_ws_def)
  have blank: "dropWhile is_ws (replicate k 32 @ t) = dropWhile is_ws t" for t
    using ws by (induction k) auto
  show ?thesis
  proof (cases "s = []")
    case True
    then show ?thesis using blank [of "[]"] by (simp add: trim_def)
  next
    case False
    then have "\<not> is_ws (hd s)" "dropWhile is_ws (rev s) = rev s"
      using assms by (auto simp: trimmed_def hd_rev intro: dropWhile_idle)
    moreover have "dropWhile is_ws (s @ t) = s @ t" for t
      using False calculation(1) by (cases s) auto
    ultimately show ?thesis using blank [of "rev s"] by (simp add: trim_def)
  qed
qed

section \<open>Slicing by byte offsets\<close>

text \<open>
  \<open>split_byte s n\<close> cuts \<open>s\<close> after its first \<open>n\<close> bytes; \<open>None\<close> when \<open>n\<close> is past the end
  or is not a character boundary, which is where \<open>&s[..n]\<close> panics.
\<close>

fun split_byte :: "rstr \<Rightarrow> nat \<Rightarrow> (rstr \<times> rstr) option" where
  "split_byte s 0 = Some ([], s)"
| "split_byte [] (Suc n) = None"
| "split_byte (c # s) (Suc n) =
     (if utf8_len c \<le> Suc n
      then map_option (\<lambda>(p, q). (c # p, q)) (split_byte s (Suc n - utf8_len c))
      else None)"

definition slice :: "rstr \<Rightarrow> nat \<Rightarrow> nat \<Rightarrow> rstr rust" where
  "slice s a b =
     (if b < a then Panic
      else case split_byte s b of
        None \<Rightarrow> Panic
      | Some (p, _) \<Rightarrow> (case split_byte p a of None \<Rightarrow> Panic | Some (_, q) \<Rightarrow> Ret q))"

lemma split_byte_append: "split_byte s n = Some (p, q) \<Longrightarrow> s = p @ q \<and> byte_len p = n"
  by (induction s n arbitrary: p rule: split_byte.induct) (auto split: if_splits)

lemma split_byte_ascii: "ascii s \<Longrightarrow> n \<le> length s \<Longrightarrow> split_byte s n = Some (take n s, drop n s)"
  by (induction s n rule: split_byte.induct) (auto simp: utf8_len_def)

lemma split_byte_boundary [simp]: "split_byte (p @ q) (byte_len p) = Some (p, q)"
proof (induction p)
  case (Cons c p)
  obtain m where m: "utf8_len c + byte_len p = Suc m"
    using utf8_len_pos [of c] by (metis Suc_pred add_gr_0)
  then have "Suc m - utf8_len c = byte_len p" and "utf8_len c \<le> Suc m" by linarith+
  with Cons m show ?case by simp
qed simp

lemma slice_ascii:
  "ascii s \<Longrightarrow> a \<le> b \<Longrightarrow> b \<le> length s \<Longrightarrow> slice s a b = Ret (take (b - a) (drop a s))"
proof -
  assume s: "ascii s" "a \<le> b" "b \<le> length s"
  then have "ascii (take b s)" by (meson ascii_def in_set_takeD)
  with s show ?thesis
    by (simp add: slice_def split_byte_ascii drop_take)
qed

section \<open>Decimal formatting and parsing\<close>

text \<open>\<open>format!("{n}")\<close> and \<open>format!("{:04}", n)\<close> of an unsigned integer.\<close>

fun dec_str :: "nat \<Rightarrow> rstr" where
  "dec_str n = (if n < 10 then [48 + n] else dec_str (n div 10) @ [48 + n mod 10])"

declare dec_str.simps [simp del]

definition pad_dec :: "nat \<Rightarrow> nat \<Rightarrow> rstr" where
  "pad_dec w n = replicate (w - length (dec_str n)) 48 @ dec_str n"

fun digits_val :: "nat \<Rightarrow> rstr \<Rightarrow> nat option" where
  "digits_val a [] = Some a"
| "digits_val a (c # s) = (if is_digit_char c then digits_val (10 * a + (c - 48)) s else None)"

definition parse_nat :: "rstr \<Rightarrow> nat option" where
  "parse_nat s = (if s = [] then None else digits_val 0 s)"

text \<open>
  \<open>str::parse\<close> of an unsigned integer of \<open>w\<close> bits: an optional plus sign, at least one digit,
  and the value in range; otherwise \<open>Err\<close>.
\<close>

definition parse_unsigned :: "nat \<Rightarrow> rstr \<Rightarrow> nat option" where
  "parse_unsigned w s =
     (case parse_nat (case s of c # r \<Rightarrow> if c = 43 \<and> r \<noteq> [] then r else s | [] \<Rightarrow> []) of
        None \<Rightarrow> None
      | Some n \<Rightarrow> if n < 2 ^ w then Some n else None)"

text \<open>\<open>str::parse::<i64>\<close>: an optional sign, digits, the value in range.\<close>

definition parse_i64 :: "rstr \<Rightarrow> i64 option" where
  "parse_i64 s =
     (case s of
        [] \<Rightarrow> None
      | c # r \<Rightarrow>
          if c = 45 \<and> r \<noteq> [] then
            (case parse_nat r of
               None \<Rightarrow> None
             | Some n \<Rightarrow> if n \<le> 2 ^ 63 then Some (word_of_int (- int n)) else None)
          else
            (case parse_nat (if c = 43 \<and> r \<noteq> [] then r else s) of
               None \<Rightarrow> None
             | Some n \<Rightarrow> if n < 2 ^ 63 then Some (word_of_nat n) else None))"

lemma digits_val_append:
  "digits_val a (s @ t) = (case digits_val a s of None \<Rightarrow> None | Some b \<Rightarrow> digits_val b t)"
  by (induction s arbitrary: a) auto

lemma dec_str_digits: "c \<in> set (dec_str n) \<Longrightarrow> is_digit_char c"
proof (induction n rule: dec_str.induct)
  case (1 n)
  then show ?case
    by (cases "n < 10") (auto simp: dec_str.simps [of n] is_digit_char_def)
qed

lemma dec_str_nonempty [simp]: "dec_str n \<noteq> []"
  by (subst dec_str.simps) simp

lemma digits_val_dec_str: "digits_val 0 (dec_str n) = Some n"
proof (induction n rule: dec_str.induct)
  case (1 n)
  then show ?case
    by (cases "n < 10")
      (simp_all add: dec_str.simps [of n] digits_val_append is_digit_char_def)
qed

lemma parse_nat_dec_str [simp]: "parse_nat (dec_str n) = Some n"
  by (simp add: parse_nat_def digits_val_dec_str)

lemma digits_val_zeros [simp]: "digits_val 0 (replicate k 48 @ s) = digits_val 0 s"
  by (induction k) (auto simp: is_digit_char_def)

lemma length_dec_str: "0 < k \<Longrightarrow> n < 10 ^ k \<Longrightarrow> length (dec_str n) \<le> k"
proof (induction n arbitrary: k rule: dec_str.induct)
  case (1 n)
  show ?case
  proof (cases "n < 10")
    case True
    with "1.prems" show ?thesis by (simp add: dec_str.simps [of n])
  next
    case False
    with "1.prems" obtain j where j: "k = Suc j" "0 < j"
      by (cases k; cases "k - 1") auto
    with "1.prems" have "n div 10 < 10 ^ j"
      by (simp add: less_mult_imp_div_less mult.commute)
    with "1.IH" False j show ?thesis by (simp add: dec_str.simps [of n])
  qed
qed

lemma length_pad_dec: "0 < w \<Longrightarrow> n < 10 ^ w \<Longrightarrow> length (pad_dec w n) = w"
  using length_dec_str [of w n] by (simp add: pad_dec_def)

lemma pad_dec_digits: "c \<in> set (pad_dec w n) \<Longrightarrow> is_digit_char c"
  by (auto simp: pad_dec_def is_digit_char_def dest: dec_str_digits split: if_splits)

lemma parse_nat_pad_dec [simp]: "parse_nat (pad_dec w n) = Some n"
  by (simp add: parse_nat_def pad_dec_def digits_val_dec_str)

lemma digit_not_ws: "is_digit_char c \<Longrightarrow> \<not> is_ws c"
  by (auto simp: is_digit_char_def is_ws_def)

lemma digit_not_sign: "is_digit_char c \<Longrightarrow> c \<noteq> 43 \<and> c \<noteq> 45"
  by (auto simp: is_digit_char_def)

lemma trim_digits: "(\<forall>c \<in> set s. is_digit_char c) \<Longrightarrow> trim s = s"
  by (rule trimmed_trim) (metis trimmed_def digit_not_ws hd_in_set last_in_set)

lemma parse_unsigned_pad_dec: "n < 2 ^ b \<Longrightarrow> parse_unsigned b (pad_dec w n) = Some n"
proof -
  assume n: "n < 2 ^ b"
  have "\<not> (\<exists>r. pad_dec w n = 43 # r)"
    using pad_dec_digits [of 43 w n] by (auto simp: is_digit_char_def)
  then have "(case pad_dec w n of c # r \<Rightarrow> if c = 43 \<and> r \<noteq> [] then r else pad_dec w n | [] \<Rightarrow> [])
      = pad_dec w n"
    by (auto split: list.split)
  with n show ?thesis by (simp add: parse_unsigned_def)
qed

lemma digits_val_Some: "(\<forall>c \<in> set s. is_digit_char c) \<Longrightarrow> \<exists>n. digits_val a s = Some n"
  by (induction s arbitrary: a) auto

lemma digits_val_bound:
  "digits_val a s = Some n \<Longrightarrow> n < (a + 1) * 10 ^ length s"
proof (induction s arbitrary: a)
  case (Cons c s)
  then have c: "is_digit_char c" and "digits_val (10 * a + (c - 48)) s = Some n"
    by (auto split: if_splits)
  with Cons.IH have "n < (10 * a + (c - 48) + 1) * 10 ^ length s" by blast
  moreover have "10 * a + (c - 48) + 1 \<le> (a + 1) * 10"
    using c by (auto simp: is_digit_char_def)
  ultimately show ?case
    by (metis (no_types, lifting) length_Cons less_le_trans mult.assoc mult_le_mono1 power_Suc)
qed simp

section \<open>ASCII text as bytes\<close>

lemma str_bytes_ascii: "ascii s \<Longrightarrow> str_bytes s = map word_of_nat s"
  by (induction s) (auto simp: str_bytes_def encode_char_def)

lemma map_unat_str_bytes: "ascii s \<Longrightarrow> map unat (str_bytes s) = s"
  by (simp add: str_bytes_ascii) (auto simp: ascii_def intro!: map_idI)

lemma digits_ascii: "(\<forall>c \<in> set s. is_digit_char c) \<Longrightarrow> ascii s"
  by (auto simp: ascii_def is_digit_char_def)

lemma ascii_pad_dec [simp]: "ascii (pad_dec w n)"
  by (rule digits_ascii) (auto dest: pad_dec_digits)

end
