(* ===== verification/Masking.thy ===== *)
theory Masking
  imports Rust_Str
begin

text \<open>
  The masking functions of \<open>src/src/security.rs\<close> (\<open>mask_card_no\<close>, \<open>mask_business_no\<close>) and the
  contract they share as the locale \<open>field_masker\<close>: the result is a function of the trimmed text,
  is itself trimmed, keeps the first six characters and is a fixed point of the mask, so a consumer
  that trims a masked field, or masks it again, changes nothing.
\<close>

section \<open>The functions\<close>

definition mask_card_no :: "rstr \<Rightarrow> rstr" where
  "mask_card_no s0 =
     (let s = trim s0; char_count = length s in
      if char_count < 10 \<or> 42 \<in> set s then s
      else
        let masked = char_count - 10;
            prefix = take 6 s;
            suffix = rev (take 4 (rev s))
        in prefix @ replicate masked 42 @ suffix)"

definition mask_business_no :: "rstr \<Rightarrow> rstr" where
  "mask_business_no s0 =
     (let s = trim s0 in
      if length s \<le> 6 then s else take 6 s @ lit ''****'')"

section \<open>The contract of a mask\<close>

locale field_masker =
  fixes mask :: "rstr \<Rightarrow> rstr"
  assumes mask_trim: "mask (trim s) = mask s"
    and mask_trimmed: "trimmed (mask s)"
    and mask_prefix: "take 6 (mask s) = take 6 (trim s)"
    and mask_fixed: "mask (mask s) = mask s"
begin

lemma trim_mask: "trim (mask s) = mask s"
  by (rule trimmed_trim) (rule mask_trimmed)

lemma mask_again: "(mask ^^ Suc n) s = mask s"
  by (induction n) (simp_all add: mask_fixed)

lemma mask_prefix_eq: "mask s = mask t \<Longrightarrow> take 6 (trim s) = take 6 (trim t)"
  by (metis mask_prefix)

end

section \<open>Facts on the two masks\<close>

lemma lit_stars: "lit ''****'' = replicate 4 42"
  by (simp add: lit_def numeral_eq_Suc)

lemma not_ws_star [simp]: "\<not> is_ws 42"
  by (simp add: is_ws_def)

lemma rev_take_rev: "rev (take n (rev s)) = drop (length s - n) s"
  by (simp add: rev_take)

lemma mask_card_long:
  "10 \<le> length (trim s) \<Longrightarrow> 42 \<notin> set (trim s) \<Longrightarrow>
   mask_card_no s = take 6 (trim s) @ replicate (length (trim s) - 10) 42
     @ drop (length (trim s) - 4) (trim s)"
  by (simp add: mask_card_no_def Let_def rev_take_rev)

lemma mask_card_short:
  "length (trim s) < 10 \<or> 42 \<in> set (trim s) \<Longrightarrow> mask_card_no s = trim s"
  by (auto simp: mask_card_no_def Let_def)

lemma mask_card_length: "length (mask_card_no s) = length (trim s)"
proof (cases "length (trim s) < 10 \<or> 42 \<in> set (trim s)")
  case True
  then show ?thesis by (simp add: mask_card_short)
next
  case False
  then show ?thesis by (simp add: mask_card_long)
qed

lemma trimmed_append:
  "trimmed s \<Longrightarrow> 0 < n \<Longrightarrow> s \<noteq> [] \<Longrightarrow> t \<noteq> [] \<Longrightarrow> \<not> is_ws (last t) \<Longrightarrow> trimmed (take n s @ t)"
  by (cases s; cases n) (auto simp: trimmed_def)

lemma mask_card_trimmed: "trimmed (mask_card_no s)"
proof (cases "length (trim s) < 10 \<or> 42 \<in> set (trim s)")
  case True
  then show ?thesis by (simp add: mask_card_short)
next
  case False
  let ?t = "trim s"
  have ne: "?t \<noteq> []" using False by auto
  have "last (drop (length ?t - 4) ?t) = last ?t"
    using ne by (subst last_drop) (use False in auto)
  moreover have "\<not> is_ws (last ?t)"
    using trim_trimmed [of s] ne by (simp add: trimmed_def)
  moreover have "drop (length ?t - 4) ?t \<noteq> []" using False ne by auto
  ultimately show ?thesis
    using False ne trim_trimmed [of s]
    by (simp add: mask_card_long trimmed_append)
qed

lemma mask_card_fixed: "mask_card_no (mask_card_no s) = mask_card_no s"
proof -
  have t: "trim (mask_card_no s) = mask_card_no s"
    by (rule trimmed_trim) (rule mask_card_trimmed)
  consider (short) "length (trim s) < 10 \<or> 42 \<in> set (trim s)"
    | (exact) "length (trim s) = 10" "42 \<notin> set (trim s)"
    | (long) "10 < length (trim s)" "42 \<notin> set (trim s)"
    by linarith
  then show ?thesis
  proof cases
    case short
    then show ?thesis by (simp add: mask_card_short)
  next
    case exact
    then show ?thesis by (simp add: mask_card_long)
  next
    case long
    then have "42 \<in> set (mask_card_no s)" by (simp add: mask_card_long)
    then show ?thesis using t by (simp add: mask_card_short)
  qed
qed

lemma mask_business_trimmed: "trimmed (mask_business_no s)"
proof (cases "length (trim s) \<le> 6")
  case True
  then show ?thesis by (simp add: mask_business_no_def)
next
  case False
  then have "trim s \<noteq> []" by auto
  with False show ?thesis
    using trim_trimmed [of s]
    by (simp add: mask_business_no_def lit_stars trimmed_append)
qed

lemma mask_business_fixed: "mask_business_no (mask_business_no s) = mask_business_no s"
proof (cases "length (trim s) \<le> 6")
  case True
  then show ?thesis by (simp add: mask_business_no_def)
next
  case False
  have "trim (mask_business_no s) = mask_business_no s"
    by (rule trimmed_trim) (rule mask_business_trimmed)
  with False show ?thesis by (simp add: mask_business_no_def lit_stars)
qed

interpretation card_mask: field_masker mask_card_no
proof unfold_locales
  show "mask_card_no (trim s) = mask_card_no s" for s by (simp add: mask_card_no_def)
  show "trimmed (mask_card_no s)" for s by (rule mask_card_trimmed)
  show "mask_card_no (mask_card_no s) = mask_card_no s" for s by (rule mask_card_fixed)
  show "take 6 (mask_card_no s) = take 6 (trim s)" for s
    by (cases "length (trim s) < 10 \<or> 42 \<in> set (trim s)")
      (simp_all add: mask_card_short mask_card_long)
qed

interpretation business_mask: field_masker mask_business_no
proof unfold_locales
  show "mask_business_no (trim s) = mask_business_no s" for s
    by (simp add: mask_business_no_def)
  show "trimmed (mask_business_no s)" for s by (rule mask_business_trimmed)
  show "mask_business_no (mask_business_no s) = mask_business_no s" for s
    by (rule mask_business_fixed)
  show "take 6 (mask_business_no s) = take 6 (trim s)" for s
    by (auto simp: mask_business_no_def Let_def)
qed

end
