(* ===== verification/Conn_Limiter.thy ===== *)
theory Conn_Limiter
  imports Prelude
begin

text \<open>
  What the accept loop relies on of whatever limits its connections: an admission that counts a
  connection or refuses it and changes no count, a release that undoes exactly one admission, and
  two bounds. The client's lemma says that after any sequence of openings and closings the
  counters are exactly the live connections, so the bounds hold of those.
\<close>

section \<open>A run of openings and closings\<close>

datatype 'ip conn_event = Open_Conn 'ip | Close_Conn 'ip

text \<open>
  The limiter with the live connections beside it: a guard exists for each of them and only a
  guard's drop releases, so a closing with no live connection from the address does nothing.
\<close>

fun conn_step ::
  "('t \<Rightarrow> 'ip \<Rightarrow> bool \<times> 't) \<Rightarrow> ('t \<Rightarrow> 'ip \<Rightarrow> 't) \<Rightarrow> 't \<times> 'ip multiset \<Rightarrow> 'ip conn_event \<Rightarrow>
   't \<times> 'ip multiset" where
  "conn_step admit rel (t, live) (Open_Conn ip) =
     (case admit t ip of (True, t') \<Rightarrow> (t', add_mset ip live) | (False, t') \<Rightarrow> (t', live))"
| "conn_step admit rel (t, live) (Close_Conn ip) =
     (if ip \<in># live then (rel t ip, live - {#ip#}) else (t, live))"

definition conn_run ::
  "('t \<Rightarrow> 'ip \<Rightarrow> bool \<times> 't) \<Rightarrow> ('t \<Rightarrow> 'ip \<Rightarrow> 't) \<Rightarrow> 't \<times> 'ip multiset \<Rightarrow> 'ip conn_event list \<Rightarrow>
   't \<times> 'ip multiset" where
  "conn_run admit rel = foldl (conn_step admit rel)"

section \<open>The contract\<close>

locale conn_limiter =
  fixes admit :: "'t \<Rightarrow> 'ip \<Rightarrow> bool \<times> 't"
    and rel :: "'t \<Rightarrow> 'ip \<Rightarrow> 't"
    and total_of :: "'t \<Rightarrow> nat"
    and count_of :: "'t \<Rightarrow> 'ip \<Rightarrow> nat"
    and limits :: "'t \<Rightarrow> nat \<times> nat"
    and inv :: "'t \<Rightarrow> bool"
  assumes admit_inv: "inv t \<Longrightarrow> inv (snd (admit t ip))"
    and admit_limits: "limits (snd (admit t ip)) = limits t"
    and admit_yes: "inv t \<Longrightarrow> admit t ip = (True, t') \<Longrightarrow>
        total_of t' = Suc (total_of t) \<and> count_of t' = (count_of t)(ip := Suc (count_of t ip))"
    and admit_no: "inv t \<Longrightarrow> admit t ip = (False, t') \<Longrightarrow>
        total_of t' = total_of t \<and> count_of t' = count_of t"
    and rel_inv: "inv t \<Longrightarrow> 0 < count_of t ip \<Longrightarrow> 0 < total_of t \<Longrightarrow> inv (rel t ip)"
    and rel_limits: "limits (rel t ip) = limits t"
    and rel_counts: "inv t \<Longrightarrow> 0 < count_of t ip \<Longrightarrow> 0 < total_of t \<Longrightarrow>
        total_of (rel t ip) = total_of t - 1 \<and>
        count_of (rel t ip) = (count_of t)(ip := count_of t ip - 1)"
    and within_limits: "inv t \<Longrightarrow> total_of t \<le> fst (limits t) \<and> count_of t ip \<le> snd (limits t)"
begin

lemma step_agrees:
  assumes "inv t" and "total_of t = size live" and "count_of t = count live"
    and "conn_step admit rel (t, live) e = (t', live')"
  shows "inv t' \<and> limits t' = limits t \<and> total_of t' = size live' \<and> count_of t' = count live'"
proof (cases e)
  case (Open_Conn ip)
  obtain b u where a: "admit t ip = (b, u)" by force
  have u: "inv u" "limits u = limits t"
    using admit_inv [OF assms(1), of ip] admit_limits [of t ip] a by simp_all
  show ?thesis
    using assms a u Open_Conn admit_yes [of t ip u] admit_no [of t ip u]
    by (cases b) (auto simp: fun_eq_iff)
next
  case (Close_Conn ip)
  show ?thesis
  proof (cases "ip \<in># live")
    case True
    then have pos: "0 < count_of t ip" "0 < total_of t"
      using assms(2,3) by (auto simp: count_greater_zero_iff nonempty_has_size [symmetric])
    show ?thesis
      using assms True Close_Conn rel_counts [OF assms(1) pos] rel_inv [OF assms(1) pos]
        rel_limits [of t ip]
      by (auto simp: fun_eq_iff size_Diff_singleton)
  next
    case False
    with assms Close_Conn show ?thesis by simp
  qed
qed

lemma run_agrees:
  assumes "inv t" and "total_of t = size live" and "count_of t = count live"
    and "conn_run admit rel (t, live) es = (t', live')"
  shows "inv t' \<and> limits t' = limits t \<and> total_of t' = size live' \<and> count_of t' = count live'"
  using assms
proof (induction es arbitrary: t live)
  case Nil
  then show ?case by (simp add: conn_run_def)
next
  case (Cons e es)
  obtain u m where um: "conn_step admit rel (t, live) e = (u, m)" by force
  have "inv u \<and> limits u = limits t \<and> total_of u = size m \<and> count_of u = count m"
    using step_agrees [OF Cons.prems(1-3) um] .
  moreover have "conn_run admit rel (u, m) es = (t', live')"
    using Cons.prems(4) um by (simp add: conn_run_def)
  ultimately show ?case using Cons.IH by metis
qed

lemma live_within_limits:
  assumes "inv t" and "total_of t = 0" and "count_of t = (\<lambda>_. 0)"
    and "conn_run admit rel (t, {#}) es = (t', live')"
  shows "size live' \<le> fst (limits t) \<and> count live' ip \<le> snd (limits t)"
proof -
  have "inv t' \<and> limits t' = limits t \<and> total_of t' = size live' \<and> count_of t' = count live'"
    using run_agrees [OF assms(1) _ _ assms(4)] assms(2,3) by (simp add: fun_eq_iff)
  then show ?thesis using within_limits [of t' ip] by simp
qed

lemma all_closed:
  assumes "inv t" and "total_of t = 0" and "count_of t = (\<lambda>_. 0)"
    and "conn_run admit rel (t, {#}) es = (t', {#})"
  shows "total_of t' = 0 \<and> count_of t' = (\<lambda>_. 0)"
  using run_agrees [OF assms(1) _ _ assms(4)] assms(2,3) by (simp add: fun_eq_iff)

end

end
