(* ===== verification/Net_Addr.thy ===== *)
theory Net_Addr
  imports Rust_Str
begin

text \<open>
  \<open>std::net::IpAddr\<close> and its \<open>parse\<close>, as the standard library writes it: a dotted IPv4 address
  (no leading zeros), or an IPv6 address of up to eight hexadecimal groups with one \<open>::\<close> and an
  optional trailing IPv4 part. The list of allowed addresses of the configuration is read with it.
\<close>

datatype ip_addr = V4 "u8 list" | V6 "u16 list"

definition unspecified_v4 :: ip_addr where
  "unspecified_v4 = V4 [0, 0, 0, 0]"

section \<open>The parser's primitive readers\<close>

text \<open>
  A reader takes the characters left and gives what it read and what is left, or \<open>None\<close>; like the
  library's \<open>read_atomically\<close>, a reader that fails consumes nothing.
\<close>

type_synonym 'a reader = "rstr \<Rightarrow> ('a \<times> rstr) option"

definition read_given_char :: "rchar \<Rightarrow> unit reader" where
  "read_given_char c s = (case s of d # r \<Rightarrow> if d = c then Some ((), r) else None | [] \<Rightarrow> None)"

definition read_separator :: "rchar \<Rightarrow> nat \<Rightarrow> 'a reader \<Rightarrow> 'a reader" where
  "read_separator sep index inner s =
     (if index > 0 then
        (case read_given_char sep s of None \<Rightarrow> None | Some (_, r) \<Rightarrow> inner r)
      else inner s)"

definition hex_val :: "rchar \<Rightarrow> nat option" where
  "hex_val c =
     (if is_digit_char c then Some (c - 48)
      else if 97 \<le> c \<and> c \<le> 102 then Some (c - 87)
      else if 65 \<le> c \<and> c \<le> 70 then Some (c - 55)
      else None)"

definition dec_val :: "rchar \<Rightarrow> nat option" where
  "dec_val c = (if is_digit_char c then Some (c - 48) else None)"

text \<open>
  The digits of a number: \<open>k\<close> counts those read, \<open>a\<close> is the value; more than \<open>lim\<close> digits or a
  value of \<open>bound\<close> or more is a failure.
\<close>

fun read_digits ::
  "(rchar \<Rightarrow> nat option) \<Rightarrow> nat \<Rightarrow> nat \<Rightarrow> nat \<Rightarrow> nat \<Rightarrow> nat \<Rightarrow> rstr \<Rightarrow> ((nat \<times> nat) \<times> rstr) option"
where
  "read_digits val radix lim bound k a [] = Some ((k, a), [])"
| "read_digits val radix lim bound k a (c # s) =
     (case val c of
        None \<Rightarrow> Some ((k, a), c # s)
      | Some d \<Rightarrow>
          if radix * a + d \<ge> bound \<or> Suc k > lim then None
          else read_digits val radix lim bound (Suc k) (radix * a + d) s)"

definition read_number :: "(rchar \<Rightarrow> nat option) \<Rightarrow> nat \<Rightarrow> nat \<Rightarrow> nat \<Rightarrow> bool \<Rightarrow> nat reader" where
  "read_number val radix lim bound allow_zero_prefix s =
     (let has_leading_zero = (case s of c # _ \<Rightarrow> c = 48 | [] \<Rightarrow> False) in
      case read_digits val radix lim bound 0 0 s of
        None \<Rightarrow> None
      | Some ((k, a), r) \<Rightarrow>
          if k = 0 then None
          else if \<not> allow_zero_prefix \<and> has_leading_zero \<and> k > 1 then None
          else Some (a, r))"

section \<open>IPv4\<close>

fun read_octets :: "nat \<Rightarrow> nat \<Rightarrow> u8 list \<Rightarrow> u8 list reader" where
  "read_octets 0 i acc s = Some (acc, s)"
| "read_octets (Suc n) i acc s =
     (case read_separator 46 i (read_number dec_val 10 3 256 False) s of
        None \<Rightarrow> None
      | Some (v, r) \<Rightarrow> read_octets n (Suc i) (acc @ [word_of_nat v]) r)"

definition read_ipv4_addr :: "u8 list reader" where
  "read_ipv4_addr = read_octets 4 0 []"

section \<open>IPv6\<close>

definition u16_from_be :: "u8 \<Rightarrow> u8 \<Rightarrow> u16" where
  "u16_from_be a b = word_of_nat (256 * unat a + unat b)"

text \<open>
  \<open>read_groups\<close>: \<open>fuel\<close> counts the groups still allowed, \<open>i\<close> those read; the result says whether
  an embedded IPv4 address ended the groups.
\<close>

fun read_groups :: "nat \<Rightarrow> nat \<Rightarrow> u16 list \<Rightarrow> rstr \<Rightarrow> (u16 list \<times> bool) \<times> rstr" where
  "read_groups 0 i acc s = ((acc, False), s)"
| "read_groups (Suc n) i acc s =
     (case (if n > 0 then read_separator 58 i read_ipv4_addr s else None) of
        Some ([a, b, c, d], r) \<Rightarrow> ((acc @ [u16_from_be a b, u16_from_be c d], True), r)
      | _ \<Rightarrow>
          (case read_separator 58 i (read_number hex_val 16 4 65536 True) s of
             None \<Rightarrow> ((acc, False), s)
           | Some (v, r) \<Rightarrow> read_groups n (Suc i) (acc @ [word_of_nat v]) r))"

definition read_ipv6_addr :: "u16 list reader" where
  "read_ipv6_addr s =
     (case read_groups 8 0 [] s of ((head, head_ipv4), r) \<Rightarrow>
        if length head = 8 then Some (head, r)
        else if head_ipv4 then None
        else
          (case read_given_char 58 r of
             None \<Rightarrow> None
           | Some (_, r1) \<Rightarrow>
               (case read_given_char 58 r1 of
                  None \<Rightarrow> None
                | Some (_, r2) \<Rightarrow>
                    (case read_groups (8 - (length head + 1)) 0 [] r2 of ((tail, _), r3) \<Rightarrow>
                       Some (head @ replicate (8 - length head - length tail) 0 @ tail, r3)))))"

section \<open>\<open>IpAddr::from_str\<close>\<close>

definition read_ip_addr :: "ip_addr reader" where
  "read_ip_addr s =
     (case read_ipv4_addr s of
        Some (o4, r) \<Rightarrow> Some (V4 o4, r)
      | None \<Rightarrow> (case read_ipv6_addr s of Some (g, r) \<Rightarrow> Some (V6 g, r) | None \<Rightarrow> None))"

text \<open>The whole text must be read.\<close>

definition parse_ip_addr :: "rstr \<Rightarrow> ip_addr option" where
  "parse_ip_addr s =
     (case read_ip_addr s of Some (a, r) \<Rightarrow> if r = [] then Some a else None | None \<Rightarrow> None)"

section \<open>\<open>Display\<close> of an address\<close>

text \<open>
  IPv4 in dotted decimals; IPv6 in hexadecimal groups, the first longest run of at least two zero groups
  written as \<open>::\<close>, and an IPv4-mapped address with its last two groups as IPv4.
\<close>

definition hex_digit :: "nat \<Rightarrow> rchar" where
  "hex_digit n = (if n < 10 then 48 + n else 87 + n)"

fun hex_str :: "nat \<Rightarrow> rstr" where
  "hex_str n = (if n < 16 then [hex_digit n] else hex_str (n div 16) @ [hex_digit (n mod 16)])"

declare hex_str.simps [simp del]

fun join_with :: "rstr \<Rightarrow> rstr list \<Rightarrow> rstr" where
  "join_with sep [] = []"
| "join_with sep [s] = s"
| "join_with sep (s # ss) = s @ sep @ join_with sep ss"

definition show_ipv4 :: "u8 list \<Rightarrow> rstr" where
  "show_ipv4 os = join_with [46] (map (\<lambda>b. dec_str (unat b)) os)"

text \<open>The span \<open>(start, len)\<close> of the longest run of zeros; \<open>cur\<close> is the run being read.\<close>

fun zero_span :: "nat \<Rightarrow> nat \<times> nat \<Rightarrow> nat \<times> nat \<Rightarrow> u16 list \<Rightarrow> nat \<times> nat" where
  "zero_span i longest cur [] = longest"
| "zero_span i longest cur (g # gs) =
     (if g = 0 then
        (let cur' = (if snd cur = 0 then (i, 1) else (fst cur, snd cur + 1))
         in zero_span (Suc i) (if snd cur' > snd longest then cur' else longest) cur' gs)
      else zero_span (Suc i) longest (0, 0) gs)"

definition show_groups :: "u16 list \<Rightarrow> rstr" where
  "show_groups gs = join_with [58] (map (\<lambda>g. hex_str (unat g)) gs)"

definition show_ipv6 :: "u16 list \<Rightarrow> rstr" where
  "show_ipv6 gs =
     (if take 6 gs = [0, 0, 0, 0, 0, 0xFFFF]
      then lit ''::ffff:'' @
        show_ipv4 (concat (map (\<lambda>g. [word_of_nat (unat g div 256), word_of_nat (unat g mod 256)]) (drop 6 gs)))
      else
        (case zero_span 0 (0, 0) (0, 0) gs of (start, len) \<Rightarrow>
           if len > 1 then show_groups (take start gs) @ [58, 58] @ show_groups (drop (start + len) gs)
           else show_groups gs))"

definition show_ip :: "ip_addr \<Rightarrow> rstr" where
  "show_ip a = (case a of V4 os \<Rightarrow> show_ipv4 os | V6 gs \<Rightarrow> show_ipv6 gs)"

section \<open>Well-formed addresses\<close>

definition valid_ip :: "ip_addr \<Rightarrow> bool" where
  "valid_ip a = (case a of V4 os \<Rightarrow> length os = 4 | V6 gs \<Rightarrow> length gs = 8)"

lemma read_octets_length: "read_octets n i acc s = Some (os, r) \<Longrightarrow> length os = length acc + n"
  by (induction n i acc s arbitrary: os r rule: read_octets.induct) (auto split: option.splits)

lemma read_ipv4_length: "read_ipv4_addr s = Some (os, r) \<Longrightarrow> length os = 4"
  by (auto simp: read_ipv4_addr_def dest: read_octets_length)

lemma read_groups_length:
  "read_groups n i acc s = ((gs, b), r) \<Longrightarrow> length acc \<le> length gs \<and> length gs \<le> length acc + n"
proof (induction n i acc s arbitrary: gs b r rule: read_groups.induct)
  case (2 n i acc s)
  then show ?case
    by (fastforce split: option.splits list.splits if_splits prod.splits)
qed simp

lemma read_ipv6_length: "read_ipv6_addr s = Some (gs, r) \<Longrightarrow> length gs = 8"
  by (auto simp: read_ipv6_addr_def split: prod.splits if_splits option.splits
      dest!: read_groups_length)

lemma parse_ip_addr_valid: "parse_ip_addr s = Some a \<Longrightarrow> valid_ip a"
  using read_ipv4_length [of s] read_ipv6_length [of s]
  by (auto simp: parse_ip_addr_def read_ip_addr_def valid_ip_def split: option.splits if_splits)

end
