(* ===== verification/Security.thy ===== *)
theory Security
  imports Masking Conn_Limiter Net_Addr
begin

text \<open>
  \<open>src/src/security.rs\<close> but for the masks: the constant-time comparison, the two HTTP middlewares,
  the construction of the rate limiter, and the \<open>ConnectionTracker\<close> with each of its operations
  taken as one step (the interleaving of their atomic parts is in \<open>Tracker_Steps\<close>).
\<close>

section \<open>Constant-time comparison\<close>

unbundle bit_operations_syntax

definition constant_time_eq :: "bytes \<Rightarrow> bytes \<Rightarrow> bool" where
  "constant_time_eq a b =
     (if length a \<noteq> length b then False
      else foldl (\<lambda>acc (x, y). acc OR (x XOR y)) (0 :: u8) (zip a b) = 0)"

lemma xor_zero_iff: "(x :: 'a::len word) XOR y = 0 \<longleftrightarrow> x = y"
  by (metis bit.xor_cancel_right bit.xor_left_self xor_self_eq)

lemma or_zero_iff: "(x :: 'a::len word) OR y = 0 \<longleftrightarrow> x = 0 \<and> y = 0"
  by (metis or_eq_0_iff)

lemma fold_or_zero_iff:
  "length a = length b \<Longrightarrow>
   foldl (\<lambda>acc (x, y). acc OR (x XOR y)) (c :: u8) (zip a b) = 0 \<longleftrightarrow> c = 0 \<and> a = b"
  by (induction a b arbitrary: c rule: list_induct2) (auto simp: or_zero_iff xor_zero_iff)

lemma constant_time_eq_iff: "constant_time_eq a b \<longleftrightarrow> a = b"
  by (auto simp: constant_time_eq_def fold_or_zero_iff)

section \<open>HTTP middlewares\<close>

text \<open>
  A middleware answers by itself or passes the request on. \<open>to_str\<close> is the header's conversion of
  the \<open>http\<close> crate, \<open>next\<close> the rest of the stack.
\<close>

definition api_key_middleware ::
  "(bytes \<Rightarrow> rstr option) \<Rightarrow> 'resp \<Rightarrow> rstr \<Rightarrow> bytes option \<Rightarrow> (unit \<Rightarrow> 'resp) \<Rightarrow> 'resp" where
  "api_key_middleware to_str unauthorized expected header run_next =
     (let provided = (case Option.bind header to_str of Some s \<Rightarrow> s | None \<Rightarrow> []) in
      if \<not> constant_time_eq (str_bytes provided) (str_bytes expected)
      then unauthorized
      else run_next ())"

text \<open>\<open>check_key\<close> is the rate limiter of the \<open>governor\<close> crate over its own state.\<close>

definition rate_limit_middleware ::
  "('g \<Rightarrow> ip_addr \<Rightarrow> bool \<times> 'g) \<Rightarrow> 'resp \<Rightarrow> 'g \<Rightarrow> ip_addr option \<Rightarrow> ('g \<Rightarrow> 'g \<times> 'resp) \<Rightarrow> 'g \<times> 'resp"
where
  "rate_limit_middleware check_key too_many g connect_info run_next =
     (let ip = (case connect_info of Some a \<Rightarrow> a | None \<Rightarrow> unspecified_v4) in
      case check_key g ip of
        (False, g') \<Rightarrow> (g', too_many)
      | (True, g') \<Rightarrow> run_next g')"

record rate_quota =
  quota_per_second :: nat
  quota_burst :: nat

text \<open>\<open>NonZeroU32::new(n).unwrap()\<close> panics at zero.\<close>

definition new_rate_limiter :: "nat \<Rightarrow> nat \<Rightarrow> rate_quota rust" where
  "new_rate_limiter per_second burst =
     (if per_second = 0 then Panic
      else if burst = 0 then Panic
      else Ret \<lparr> quota_per_second = per_second, quota_burst = burst \<rparr>)"

section \<open>The connection tracker\<close>

record tracker =
  total :: nat
  per_ip :: "ip_addr \<Rightarrow> nat option"
  max_total :: nat
  max_per_ip :: nat

datatype acquire_error = Per_Ip_Limit | Total_Limit

definition tracker_new :: "nat \<Rightarrow> nat \<Rightarrow> tracker" where
  "tracker_new mt mi = \<lparr> total = 0, per_ip = Map.empty, max_total = mt, max_per_ip = mi \<rparr>"

text \<open>\<open>entry(ip).or_insert(0)\<close> leaves the entry in the map on every way out.\<close>

definition acquire :: "tracker \<Rightarrow> ip_addr \<Rightarrow> (acquire_error + ip_addr) \<times> tracker" where
  "acquire t ip =
     (let entry = (case per_ip t ip of Some n \<Rightarrow> n | None \<Rightarrow> 0);
          t1 = t\<lparr>per_ip := (per_ip t)(ip \<mapsto> entry)\<rparr>
      in if entry \<ge> max_per_ip t1 then (Inl Per_Ip_Limit, t1)
         else
           let prev = total t1; t2 = t1\<lparr>total := usize_add (total t1) 1\<rparr>
           in if prev \<ge> max_total t2
              then (Inl Total_Limit, t2\<lparr>total := usize_sub (total t2) 1\<rparr>)
              else (Inr ip, t2\<lparr>per_ip := (per_ip t2)(ip \<mapsto> Suc entry)\<rparr>))"

definition release :: "tracker \<Rightarrow> ip_addr \<Rightarrow> tracker" where
  "release t ip =
     (let t1 = t\<lparr>total := usize_sub (total t) 1\<rparr> in
      case per_ip t1 ip of
        None \<Rightarrow> t1
      | Some c \<Rightarrow>
          let count = c - 1 in
          if count = 0 then t1\<lparr>per_ip := (per_ip t1)(ip := None)\<rparr>
          else t1\<lparr>per_ip := (per_ip t1)(ip \<mapsto> count)\<rparr>)"

definition ip_count :: "tracker \<Rightarrow> ip_addr \<Rightarrow> nat" where
  "ip_count t ip = (case per_ip t ip of Some n \<Rightarrow> n | None \<Rightarrow> 0)"

definition tracker_inv :: "tracker \<Rightarrow> bool" where
  "tracker_inv t \<longleftrightarrow>
     total t \<le> max_total t \<and> max_total t < 2 ^ 64 \<and> (\<forall>ip. ip_count t ip \<le> max_per_ip t)"

definition admit :: "tracker \<Rightarrow> ip_addr \<Rightarrow> bool \<times> tracker" where
  "admit t ip = (case acquire t ip of (Inl _, t') \<Rightarrow> (False, t') | (Inr _, t') \<Rightarrow> (True, t'))"

lemma acquire_cases:
  obtains
    (per_ip) "max_per_ip t \<le> ip_count t ip"
      "acquire t ip = (Inl Per_Ip_Limit, t\<lparr>per_ip := (per_ip t)(ip \<mapsto> ip_count t ip)\<rparr>)"
  | (total) "ip_count t ip < max_per_ip t" "max_total t \<le> total t"
      "acquire t ip = (Inl Total_Limit,
         t\<lparr>per_ip := (per_ip t)(ip \<mapsto> ip_count t ip),
           total := usize_sub (usize_add (total t) 1) 1\<rparr>)"
  | (ok) "ip_count t ip < max_per_ip t" "total t < max_total t"
      "acquire t ip = (Inr ip,
         t\<lparr>per_ip := (per_ip t)(ip \<mapsto> Suc (ip_count t ip)), total := usize_add (total t) 1\<rparr>)"
  by (cases "max_per_ip t \<le> ip_count t ip"; cases "max_total t \<le> total t")
    (auto simp: acquire_def ip_count_def Let_def)

lemma ip_count_upd [simp]:
  "ip_count (t\<lparr>per_ip := (per_ip t)(ip := v), total := n\<rparr>) j =
     (if j = ip then (case v of Some n \<Rightarrow> n | None \<Rightarrow> 0) else ip_count t j)"
  "ip_count (t\<lparr>per_ip := (per_ip t)(ip := v)\<rparr>) j =
     (if j = ip then (case v of Some n \<Rightarrow> n | None \<Rightarrow> 0) else ip_count t j)"
  by (simp_all add: ip_count_def)

lemma acquire_inv: "tracker_inv t \<Longrightarrow> tracker_inv (snd (acquire t ip))"
proof (cases rule: acquire_cases [of t ip])
  case per_ip
  then show "tracker_inv t \<Longrightarrow> ?thesis" by (auto simp: tracker_inv_def)
next
  case total
  then show "tracker_inv t \<Longrightarrow> ?thesis" by (auto simp: tracker_inv_def)
next
  case ok
  then show "tracker_inv t \<Longrightarrow> ?thesis" by (auto simp: tracker_inv_def)
qed

lemma acquire_limits:
  "max_total (snd (acquire t ip)) = max_total t" "max_per_ip (snd (acquire t ip)) = max_per_ip t"
  by (cases rule: acquire_cases [of t ip]; simp)+

lemma acquire_ok:
  "tracker_inv t \<Longrightarrow> acquire t ip = (Inr g, t') \<Longrightarrow>
   g = ip \<and> total t' = Suc (total t) \<and> ip_count t' = (ip_count t)(ip := Suc (ip_count t ip))"
  by (cases rule: acquire_cases [of t ip]) (auto simp: tracker_inv_def fun_eq_iff)

lemma acquire_refused:
  "tracker_inv t \<Longrightarrow> acquire t ip = (Inl e, t') \<Longrightarrow> total t' = total t \<and> ip_count t' = ip_count t"
  by (cases rule: acquire_cases [of t ip]) (auto simp: tracker_inv_def fun_eq_iff)

lemma release_count:
  "0 < ip_count t ip \<Longrightarrow> ip_count (release t ip) = (ip_count t)(ip := ip_count t ip - 1)"
  by (auto simp: release_def ip_count_def Let_def fun_eq_iff split: option.splits)

lemma release_total: "total (release t ip) = usize_sub (total t) 1"
  by (simp add: release_def Let_def split: option.split)

lemma release_limits:
  "max_total (release t ip) = max_total t" "max_per_ip (release t ip) = max_per_ip t"
  by (simp_all add: release_def Let_def split: option.split)

interpretation tracker_limiter: conn_limiter admit release total ip_count
  "\<lambda>t. (max_total t, max_per_ip t)" tracker_inv
proof unfold_locales
  fix t t' :: tracker and ip :: ip_addr
  show "tracker_inv t \<Longrightarrow> tracker_inv (snd (admit t ip))"
    using acquire_inv [of t ip] by (auto simp: admit_def split: prod.splits sum.splits)
  show "(max_total (snd (admit t ip)), max_per_ip (snd (admit t ip))) = (max_total t, max_per_ip t)"
    using acquire_limits [of t ip] by (auto simp: admit_def split: prod.splits sum.splits)
  show "tracker_inv t \<Longrightarrow> admit t ip = (True, t') \<Longrightarrow>
      total t' = Suc (total t) \<and> ip_count t' = (ip_count t)(ip := Suc (ip_count t ip))"
    by (auto simp: admit_def dest: acquire_ok split: prod.splits sum.splits)
  show "tracker_inv t \<Longrightarrow> admit t ip = (False, t') \<Longrightarrow>
      total t' = total t \<and> ip_count t' = ip_count t"
    by (auto simp: admit_def dest: acquire_refused split: prod.splits sum.splits)
  assume inv: "tracker_inv t"
  then show "total t \<le> fst (max_total t, max_per_ip t) \<and>
      ip_count t ip \<le> snd (max_total t, max_per_ip t)"
    by (simp add: tracker_inv_def)
  assume pos: "0 < ip_count t ip" "0 < total t"
  show counts: "total (release t ip) = total t - 1 \<and>
      ip_count (release t ip) = (ip_count t)(ip := ip_count t ip - 1)"
    using inv pos release_count [OF pos(1)] by (simp add: release_total tracker_inv_def)
  then show "tracker_inv (release t ip)"
    using inv by (auto simp: tracker_inv_def release_limits intro: le_trans [OF diff_le_self])
next
  fix t ip
  show "(max_total (release t ip), max_per_ip (release t ip)) = (max_total t, max_per_ip t)"
    by (simp add: release_limits)
qed

lemma tracker_new_inv: "mt < 2 ^ 64 \<Longrightarrow> tracker_inv (tracker_new mt mi)"
  by (simp add: tracker_new_def tracker_inv_def ip_count_def)

lemma tracker_new_counts [simp]:
  "total (tracker_new mt mi) = 0" "ip_count (tracker_new mt mi) = (\<lambda>_. 0)"
  "max_total (tracker_new mt mi) = mt" "max_per_ip (tracker_new mt mi) = mi"
  by (simp_all add: tracker_new_def ip_count_def fun_eq_iff)

end
