(* ===== verification/Tracker_Steps.thy ===== *)
theory Tracker_Steps
  imports Security
begin

text \<open>
  The \<open>ConnectionTracker\<close> of \<open>src/src/security.rs\<close> at the grain of its atomic operations. Each task
  runs one \<open>acquire\<close>, holds its guard for a while and runs one \<open>release\<close>; a step is one task doing
  one locked access of the map or one atomic operation on \<open>total\<close>. The entry of the map is locked
  (with its whole shard) from the per-address check of \<open>acquire\<close> to its return, while \<open>release\<close>
  takes the lock twice: once to decrement, and again to remove an entry it left at zero.

  Three things are shown: the bound on all connections holds in every reachable state; no counter
  is left behind when every task is done; and the bound per address can be exceeded, by an
  \<open>acquire\<close> that comes between the two locked accesses of a \<open>release\<close>.
\<close>

section \<open>States and steps\<close>

datatype pc =
    Idle
  | At_Total ip_addr    \<comment> \<open>entry locked, check per address passed\<close>
  | At_Undo ip_addr     \<comment> \<open>entry locked, \<open>total\<close> increased past the limit\<close>
  | At_Bump ip_addr     \<comment> \<open>entry locked, \<open>total\<close> increased\<close>
  | Live ip_addr        \<comment> \<open>holds a guard\<close>
  | At_Dec ip_addr      \<comment> \<open>dropping: \<open>total\<close> decreased\<close>
  | At_Remove ip_addr   \<comment> \<open>dropping: entry seen at zero and unlocked\<close>
  | Done

record params =
  shard :: "ip_addr \<Rightarrow> nat"
  lim_total :: nat
  lim_per_ip :: nat
  tasks :: nat

record sys =
  s_total :: nat
  s_per_ip :: "ip_addr \<Rightarrow> nat option"
  s_pc :: "nat \<Rightarrow> pc"

fun locked_ip :: "pc \<Rightarrow> ip_addr option" where
  "locked_ip (At_Total ip) = Some ip"
| "locked_ip (At_Undo ip) = Some ip"
| "locked_ip (At_Bump ip) = Some ip"
| "locked_ip _ = None"

definition unlocked :: "params \<Rightarrow> sys \<Rightarrow> ip_addr \<Rightarrow> bool" where
  "unlocked P s ip \<longleftrightarrow>
     (\<forall>j < tasks P. \<forall>a. locked_ip (s_pc s j) = Some a \<longrightarrow> shard P a \<noteq> shard P ip)"

definition s_count :: "sys \<Rightarrow> ip_addr \<Rightarrow> nat" where
  "s_count s ip = (case s_per_ip s ip of Some n \<Rightarrow> n | None \<Rightarrow> 0)"

definition init_sys :: sys where
  "init_sys = \<lparr> s_total = 0, s_per_ip = Map.empty, s_pc = (\<lambda>_. Idle) \<rparr>"

definition goto :: "sys \<Rightarrow> nat \<Rightarrow> pc \<Rightarrow> sys" where
  "goto s i p = s\<lparr>s_pc := (s_pc s)(i := p)\<rparr>"

inductive track_step :: "params \<Rightarrow> sys \<Rightarrow> sys \<Rightarrow> bool" for P where
  refuse_ip: "i < tasks P \<Longrightarrow> s_pc s i = Idle \<Longrightarrow> unlocked P s ip \<Longrightarrow> lim_per_ip P \<le> s_count s ip \<Longrightarrow>
     track_step P s (goto (s\<lparr>s_per_ip := (s_per_ip s)(ip \<mapsto> s_count s ip)\<rparr>) i Done)"
| enter: "i < tasks P \<Longrightarrow> s_pc s i = Idle \<Longrightarrow> unlocked P s ip \<Longrightarrow> s_count s ip < lim_per_ip P \<Longrightarrow>
     track_step P s (goto (s\<lparr>s_per_ip := (s_per_ip s)(ip \<mapsto> s_count s ip)\<rparr>) i (At_Total ip))"
| add_ok: "i < tasks P \<Longrightarrow> s_pc s i = At_Total ip \<Longrightarrow> s_total s < lim_total P \<Longrightarrow>
     track_step P s (goto (s\<lparr>s_total := usize_add (s_total s) 1\<rparr>) i (At_Bump ip))"
| add_over: "i < tasks P \<Longrightarrow> s_pc s i = At_Total ip \<Longrightarrow> lim_total P \<le> s_total s \<Longrightarrow>
     track_step P s (goto (s\<lparr>s_total := usize_add (s_total s) 1\<rparr>) i (At_Undo ip))"
| undo: "i < tasks P \<Longrightarrow> s_pc s i = At_Undo ip \<Longrightarrow>
     track_step P s (goto (s\<lparr>s_total := usize_sub (s_total s) 1\<rparr>) i Done)"
| bump: "i < tasks P \<Longrightarrow> s_pc s i = At_Bump ip \<Longrightarrow>
     track_step P s (goto (s\<lparr>s_per_ip := (s_per_ip s)(ip \<mapsto> Suc (s_count s ip))\<rparr>) i (Live ip))"
| drop_total: "i < tasks P \<Longrightarrow> s_pc s i = Live ip \<Longrightarrow>
     track_step P s (goto (s\<lparr>s_total := usize_sub (s_total s) 1\<rparr>) i (At_Dec ip))"
| dec_none: "i < tasks P \<Longrightarrow> s_pc s i = At_Dec ip \<Longrightarrow> unlocked P s ip \<Longrightarrow> s_per_ip s ip = None \<Longrightarrow>
     track_step P s (goto s i Done)"
| dec_more: "i < tasks P \<Longrightarrow> s_pc s i = At_Dec ip \<Longrightarrow> unlocked P s ip \<Longrightarrow> s_per_ip s ip = Some c \<Longrightarrow>
     c - 1 \<noteq> 0 \<Longrightarrow>
     track_step P s (goto (s\<lparr>s_per_ip := (s_per_ip s)(ip \<mapsto> c - 1)\<rparr>) i Done)"
| dec_last: "i < tasks P \<Longrightarrow> s_pc s i = At_Dec ip \<Longrightarrow> unlocked P s ip \<Longrightarrow> s_per_ip s ip = Some c \<Longrightarrow>
     c - 1 = 0 \<Longrightarrow>
     track_step P s (goto (s\<lparr>s_per_ip := (s_per_ip s)(ip \<mapsto> 0)\<rparr>) i (At_Remove ip))"
| remove: "i < tasks P \<Longrightarrow> s_pc s i = At_Remove ip \<Longrightarrow> unlocked P s ip \<Longrightarrow>
     track_step P s (goto (s\<lparr>s_per_ip := (s_per_ip s)(ip := None)\<rparr>) i Done)"

inductive reachable :: "params \<Rightarrow> sys \<Rightarrow> bool" for P where
  start: "reachable P init_sys"
| next_step: "reachable P s \<Longrightarrow> track_step P s t \<Longrightarrow> reachable P t"

section \<open>Counting tasks\<close>

definition num :: "nat \<Rightarrow> (pc \<Rightarrow> bool) \<Rightarrow> (nat \<Rightarrow> pc) \<Rightarrow> nat" where
  "num n Q f = card {j. j < n \<and> Q (f j)}"

lemma num_upd:
  assumes "i < n"
  shows "num n Q (f(i := p)) + of_bool (Q (f i)) = num n Q f + of_bool (Q p)"
proof -
  let ?rest = "{j. j < n \<and> j \<noteq> i \<and> Q (f j)}"
  have fin: "finite ?rest" "i \<notin> ?rest" by auto
  have split: "{j. j < n \<and> Q (g j)} = (if Q (g i) then insert i ?rest else ?rest)"
    if "\<And>j. j \<noteq> i \<Longrightarrow> g j = f j" for g
  proof (intro set_eqI)
    fix j
    show "j \<in> {j. j < n \<and> Q (g j)} \<longleftrightarrow> j \<in> (if Q (g i) then insert i ?rest else ?rest)"
      using that [of j] assms by (cases "j = i") auto
  qed
  have "num n Q (f(i := p)) = card ?rest + of_bool (Q p)"
    unfolding num_def by (subst split) (use fin in auto)
  moreover have "num n Q f = card ?rest + of_bool (Q (f i))"
    unfolding num_def by (subst split) (use fin in auto)
  ultimately show ?thesis by simp
qed

lemma num_le: "num n Q f \<le> n"
proof -
  have "card {j. j < n \<and> Q (f j)} \<le> card {..<n}" by (rule card_mono) auto
  then show ?thesis by (simp add: num_def)
qed

lemma num_mono: "(\<And>p. Q p \<Longrightarrow> R p) \<Longrightarrow> num n Q f \<le> num n R f"
  unfolding num_def by (rule card_mono) auto

lemma num_pos: "i < n \<Longrightarrow> Q (f i) \<Longrightarrow> 0 < num n Q f"
  unfolding num_def by (auto simp: card_gt_0_iff)

lemma num_none: "(\<And>j. j < n \<Longrightarrow> \<not> Q (f j)) \<Longrightarrow> num n Q f = 0"
  unfolding num_def by auto

lemma s_pc_goto [simp]: "s_pc (goto s i p) = (s_pc s)(i := p)"
  and s_total_goto [simp]: "s_total (goto s i p) = s_total s"
  and s_per_ip_goto [simp]: "s_per_ip (goto s i p) = s_per_ip s"
  by (simp_all add: goto_def)

section \<open>The total\<close>

fun counted :: "pc \<Rightarrow> bool" where
  "counted (At_Undo ip) = True"
| "counted (At_Bump ip) = True"
| "counted (Live ip) = True"
| "counted _ = False"

fun admitted :: "pc \<Rightarrow> bool" where
  "admitted (At_Bump ip) = True"
| "admitted (Live ip) = True"
| "admitted _ = False"

fun is_live :: "pc \<Rightarrow> bool" where
  "is_live (Live ip) = True"
| "is_live _ = False"

definition total_inv :: "params \<Rightarrow> sys \<Rightarrow> bool" where
  "total_inv P s \<longleftrightarrow>
     s_total s = num (tasks P) counted (s_pc s) \<and>
     num (tasks P) admitted (s_pc s) \<le> lim_total P"

lemma admitted_counted: "admitted p \<Longrightarrow> counted p"
  by (cases p) auto

lemma live_admitted: "is_live p \<Longrightarrow> admitted p"
  by (cases p) auto

lemma total_inv_init: "total_inv P init_sys"
  by (simp add: total_inv_def init_sys_def num_def)

lemma total_inv_goto:
  assumes "total_inv P s" and "i < tasks P" and "s_pc s' = s_pc s"
    and "s_total s' + of_bool (counted (s_pc s i)) = s_total s + of_bool (counted p)"
    and "admitted p \<Longrightarrow> admitted (s_pc s i) \<or> s_total s < lim_total P"
  shows "total_inv P (goto s' i p)"
proof -
  note upd = num_upd [OF assms(2), of _ "s_pc s" p]
  have "num (tasks P) admitted (s_pc s) \<le> s_total s"
    using assms(1) num_mono [of admitted counted] admitted_counted by (auto simp: total_inv_def)
  then show ?thesis
    using assms upd [of counted] upd [of admitted]
    by (cases "admitted p"; cases "admitted (s_pc s i)") (auto simp: total_inv_def)
qed

lemma total_bounds:
  assumes "total_inv P s" and "tasks P < 2 ^ 64" and "i < tasks P"
  shows "s_total s < 2 ^ 64"
    and "counted (s_pc s i) \<Longrightarrow> 0 < s_total s"
    and "\<not> counted (s_pc s i) \<Longrightarrow> Suc (s_total s) < 2 ^ 64"
proof -
  have total: "s_total s = num (tasks P) counted (s_pc s)"
    using assms(1) by (simp add: total_inv_def)
  show "s_total s < 2 ^ 64"
    using total num_le [of "tasks P" counted "s_pc s"] assms(2) by linarith
  show "counted (s_pc s i) \<Longrightarrow> 0 < s_total s"
    using total num_pos [OF assms(3)] by simp
  assume "\<not> counted (s_pc s i)"
  then have "num (tasks P) counted ((s_pc s)(i := Live (V4 []))) = Suc (s_total s)"
    using total num_upd [OF assms(3), of counted "s_pc s" "Live (V4 [])"] by simp
  then show "Suc (s_total s) < 2 ^ 64"
    using num_le [of "tasks P" counted "(s_pc s)(i := Live (V4 []))"] assms(2) by linarith
qed

lemma track_step_total_inv:
  assumes "track_step P s t" and "total_inv P s" and "tasks P < 2 ^ 64"
  shows "total_inv P t"
  using assms(1)
proof cases
  case (add_ok i ip)
  with assms total_bounds(3) [OF assms(2,3) add_ok(2)] show ?thesis
    by (auto intro!: total_inv_goto [OF assms(2)])
next
  case (add_over i ip)
  with assms total_bounds(3) [OF assms(2,3) add_over(2)] show ?thesis
    by (auto intro!: total_inv_goto [OF assms(2)])
next
  case (undo i ip)
  with assms total_bounds(1,2) [OF assms(2,3) undo(2)] show ?thesis
    by (auto intro!: total_inv_goto [OF assms(2)])
next
  case (drop_total i ip)
  with assms total_bounds(1,2) [OF assms(2,3) drop_total(2)] show ?thesis
    by (auto intro!: total_inv_goto [OF assms(2)])
qed (auto intro!: total_inv_goto [OF assms(2)])

lemma reachable_total_inv: "reachable P s \<Longrightarrow> tasks P < 2 ^ 64 \<Longrightarrow> total_inv P s"
  by (induction rule: reachable.induct) (auto intro: total_inv_init track_step_total_inv)

lemma live_le_admitted: "num n is_live f \<le> num n admitted f"
  by (rule num_mono) (rule live_admitted)

section \<open>The counters per address\<close>

text \<open>
  The tasks an entry of the map may still stand for. An entry never counts more than those, so
  refused connections are never due to connections long gone.
\<close>

definition of_ip :: "ip_addr \<Rightarrow> pc \<Rightarrow> bool" where
  "of_ip ip p \<longleftrightarrow> p = Live ip \<or> p = At_Dec ip"

definition count_inv :: "params \<Rightarrow> sys \<Rightarrow> bool" where
  "count_inv P s \<longleftrightarrow> (\<forall>ip. s_count s ip \<le> num (tasks P) (of_ip ip) (s_pc s))"

lemma of_ip_simps [simp]:
  "of_ip ip (Live a) \<longleftrightarrow> a = ip" "of_ip ip (At_Dec a) \<longleftrightarrow> a = ip"
  "\<not> of_ip ip Idle" "\<not> of_ip ip Done" "\<not> of_ip ip (At_Total a)" "\<not> of_ip ip (At_Undo a)"
  "\<not> of_ip ip (At_Bump a)" "\<not> of_ip ip (At_Remove a)"
  by (auto simp: of_ip_def)

lemma s_count_simps [simp]:
  "s_count (goto s i p) = s_count s"
  "s_count (s\<lparr>s_total := n\<rparr>) = s_count s"
  "s_count (s\<lparr>s_per_ip := (s_per_ip s)(ip := v)\<rparr>) =
     (s_count s)(ip := (case v of Some n \<Rightarrow> n | None \<Rightarrow> 0))"
  by (auto simp: s_count_def fun_eq_iff)

lemma count_inv_goto:
  assumes "count_inv P s" and "i < tasks P" and "s_pc s' = s_pc s"
    and "\<And>ip. s_count s' ip + of_bool (of_ip ip (s_pc s i)) \<le> s_count s ip + of_bool (of_ip ip p)
      \<or> s_count s' ip = 0"
  shows "count_inv P (goto s' i p)"
  unfolding count_inv_def
proof
  fix ip
  show "s_count (goto s' i p) ip \<le> num (tasks P) (of_ip ip) (s_pc (goto s' i p))"
    using assms(1) [unfolded count_inv_def, rule_format, of ip] assms(3) assms(4) [of ip]
      num_upd [OF assms(2), of "of_ip ip" "s_pc s" p]
    by auto
qed

lemma track_step_count_inv: "track_step P s t \<Longrightarrow> count_inv P s \<Longrightarrow> count_inv P t"
proof (induction rule: track_step.induct)
  case (dec_none i s ip)
  then show ?case
    by (intro count_inv_goto [OF dec_none.prems]) (auto simp: s_count_def)
next
  case (dec_more i s ip c)
  then show ?case
    by (intro count_inv_goto [OF dec_more.prems]) (auto simp: s_count_def)
next
  case (dec_last i s ip c)
  then show ?case
    by (intro count_inv_goto [OF dec_last.prems]) (auto simp: s_count_def)
qed (auto intro!: count_inv_goto)

lemma reachable_count_inv: "reachable P s \<Longrightarrow> count_inv P s"
proof (induction rule: reachable.induct)
  case start
  show ?case by (simp add: count_inv_def init_sys_def s_count_def)
next
  case (next_step s t)
  then show ?case by (blast intro: track_step_count_inv)
qed

section \<open>Inversion of steps\<close>

text \<open>What the next step of a task at a given point can be.\<close>

inductive_cases track_stepE [elim]: "track_step P s t"

lemma track_step_moves:
  "track_step P s t \<Longrightarrow> \<exists>i < tasks P. \<exists>p. s_pc t = (s_pc s)(i := p) \<and> p \<noteq> s_pc s i \<and> p \<noteq> Idle"
  by (erule track_stepE) (auto intro!: exI)

section \<open>A run that exceeds the limit per address\<close>

definition race_params :: params where
  "race_params = \<lparr> shard = (\<lambda>_. 0), lim_total = 1000, lim_per_ip = 1, tasks = 3 \<rparr>"

definition race_ip :: ip_addr where
  "race_ip = V4 [10, 0, 0, 1]"

definition race_state :: "nat \<Rightarrow> nat option \<Rightarrow> pc \<Rightarrow> pc \<Rightarrow> pc \<Rightarrow> sys" where
  "race_state n c p0 p1 p2 =
     \<lparr> s_total = n, s_per_ip = (\<lambda>a. if a = race_ip then c else None),
       s_pc = (\<lambda>j. if j = 0 then p0 else if j = 1 then p1 else if j = 2 then p2 else Idle) \<rparr>"

lemma race_unlocked [simp]:
  "unlocked race_params (race_state n c p0 p1 p2) ip \<longleftrightarrow>
     locked_ip p0 = None \<and> locked_ip p1 = None \<and> locked_ip p2 = None"
proof -
  have "(\<forall>j < 3. Q j) \<longleftrightarrow> Q 0 \<and> Q 1 \<and> Q (2 :: nat)" for Q
    by (auto simp: less_Suc_eq numeral_3_eq_3 numeral_2_eq_2)
  then show ?thesis
    by (simp add: unlocked_def race_params_def race_state_def)
qed

lemma race_state_upd [simp]:
  "goto (race_state n c p0 p1 p2) 0 p = race_state n c p p1 p2"
  "goto (race_state n c p0 p1 p2) (Suc 0) p = race_state n c p0 p p2"
  "goto (race_state n c p0 p1 p2) 2 p = race_state n c p0 p1 p"
  "race_state n c p0 p1 p2\<lparr>s_total := m\<rparr> = race_state m c p0 p1 p2"
  "race_state n c p0 p1 p2\<lparr>s_per_ip := (s_per_ip (race_state n c p0 p1 p2))(race_ip := d)\<rparr> =
     race_state n d p0 p1 p2"
  by (auto simp: race_state_def goto_def fun_eq_iff)

lemma race_state_sel [simp]:
  "s_pc (race_state n c p0 p1 p2) 0 = p0" "s_pc (race_state n c p0 p1 p2) (Suc 0) = p1"
  "s_pc (race_state n c p0 p1 p2) 2 = p2" "s_total (race_state n c p0 p1 p2) = n"
  "s_per_ip (race_state n c p0 p1 p2) race_ip = c"
  "s_count (race_state n c p0 p1 p2) race_ip = (case c of Some m \<Rightarrow> m | None \<Rightarrow> 0)"
  by (simp_all add: race_state_def s_count_def)

lemma race_params_sel [simp]:
  "lim_total race_params = 1000" "lim_per_ip race_params = 1" "tasks race_params = 3"
  by (simp_all add: race_params_def)

lemma race_start: "reachable race_params (race_state 0 None Idle Idle Idle)"
proof -
  have "race_state 0 None Idle Idle Idle = init_sys"
    by (simp add: init_sys_def race_state_def fun_eq_iff)
  then show ?thesis by (simp add: reachable.start)
qed

lemma race_stepI:
  "reachable P s \<Longrightarrow> track_step P s t' \<Longrightarrow> t' = t \<Longrightarrow> reachable P t"
  by (auto intro: reachable.next_step)

lemma race_reachable_1: "reachable race_params (race_state 1 (Some 1) (Live race_ip) Idle Idle)"
proof -
  note race_start
  then have "reachable race_params (race_state 0 (Some 0) (At_Total race_ip) Idle Idle)"
    by (rule race_stepI [OF _ track_step.enter [of 0 _ _ race_ip]]) simp_all
  then have "reachable race_params (race_state 1 (Some 0) (At_Bump race_ip) Idle Idle)"
    by (rule race_stepI [OF _ track_step.add_ok [of 0 _ _ race_ip]]) simp_all
  then show ?thesis
    by (rule race_stepI [OF _ track_step.bump [of 0 _ _ race_ip]]) simp_all
qed

lemma race_reachable_2:
  "reachable race_params (race_state 1 (Some 1) (At_Remove race_ip) (Live race_ip) Idle)"
proof -
  note race_reachable_1
  then have "reachable race_params (race_state 0 (Some 1) (At_Dec race_ip) Idle Idle)"
    by (rule race_stepI [OF _ track_step.drop_total [of 0 _ _ race_ip]])  simp_all
  then have "reachable race_params (race_state 0 (Some 0) (At_Remove race_ip) Idle Idle)"
    by (rule race_stepI [OF _ track_step.dec_last [of 0 _ _ race_ip 1]]) simp_all
  then have "reachable race_params (race_state 0 (Some 0) (At_Remove race_ip) (At_Total race_ip) Idle)"
    by (rule race_stepI [OF _ track_step.enter [of 1 _ _ race_ip]]) simp_all
  then have "reachable race_params (race_state 1 (Some 0) (At_Remove race_ip) (At_Bump race_ip) Idle)"
    by (rule race_stepI [OF _ track_step.add_ok [of 1 _ _ race_ip]]) simp_all
  then show ?thesis
    by (rule race_stepI [OF _ track_step.bump [of 1 _ _ race_ip]]) simp_all
qed

lemma race_reachable_3:
  "reachable race_params (race_state (Suc (Suc 0)) (Some 1) Done (Live race_ip) (Live race_ip))"
proof -
  note race_reachable_2
  then have "reachable race_params (race_state 1 None Done (Live race_ip) Idle)"
    by (rule race_stepI [OF _ track_step.remove [of 0 _ _ race_ip]]) simp_all
  then have "reachable race_params (race_state 1 (Some 0) Done (Live race_ip) (At_Total race_ip))"
    by (rule race_stepI [OF _ track_step.enter [of 2 _ _ race_ip]]) simp_all
  then have "reachable race_params (race_state (Suc (Suc 0)) (Some 0) Done (Live race_ip) (At_Bump race_ip))"
    by (rule race_stepI [OF _ track_step.add_ok [of 2 _ _ race_ip]]) simp_all
  then show ?thesis
    by (rule race_stepI [OF _ track_step.bump [of 2 _ _ race_ip]]) simp_all
qed

section \<open>Properties\<close>

text \<open>
  C16: in every state the interleaved operations of the tracker can reach, at most \<open>max_total\<close>
  connections hold a guard: the transient increases of \<open>total\<close> by refused connections never let
  another one in, whatever the interleaving and however the map is sharded.
\<close>

theorem tracker_total_bound:
  assumes "reachable P s" and "tasks P < 2 ^ 64"
  shows "num (tasks P) is_live (s_pc s) \<le> lim_total P"
  using reachable_total_inv [OF assms] live_le_admitted [of "tasks P" "s_pc s"]
  by (simp add: total_inv_def)

theorem tracker_total_bound_witness:
  "num 3 is_live (s_pc (race_state 1 (Some 1) (Live race_ip) Idle Idle)) \<le> 1000"
  using tracker_total_bound [OF race_reachable_1] by (simp add: race_params_def)

text \<open>
  C33: when every task is idle or done, \<open>total\<close> and every counter per address are zero: no interleaving
  of admissions, refusals and releases leaves a count behind that would later refuse a connection.
\<close>

theorem tracker_quiescent:
  assumes "reachable P s" and "tasks P < 2 ^ 64"
    and "\<forall>i < tasks P. s_pc s i = Idle \<or> s_pc s i = Done"
  shows "s_total s = 0 \<and> s_count s ip = 0"
proof
  show "s_total s = 0"
    using reachable_total_inv [OF assms(1,2)] assms(3) num_none [of "tasks P" counted "s_pc s"]
    by (fastforce simp: total_inv_def)
  show "s_count s ip = 0"
    using reachable_count_inv [OF assms(1)] assms(3) num_none [of "tasks P" "of_ip ip" "s_pc s"]
    by (metis count_inv_def le_zero_eq of_ip_simps(3,4))
qed

theorem tracker_quiescent_witness: "s_total init_sys = 0 \<and> s_count init_sys race_ip = 0"
  by (rule tracker_quiescent [OF reachable.start [of race_params]])
    (simp_all add: race_params_def init_sys_def)

text \<open>
  C34: the limit per address can be exceeded. With a limit of one, two tasks hold guards for the same
  address in a reachable state: a \<open>release\<close> that saw its count reach zero removes the entry after
  another connection from that address was admitted, and a third one then starts from zero.
\<close>

theorem tracker_per_ip_race:
  "\<exists>P s ip. lim_per_ip P = 1 \<and> reachable P s \<and> s_pc s 1 = Live ip \<and> s_pc s 2 = Live ip"
proof (intro exI conjI)
  show "lim_per_ip race_params = 1" by (simp add: race_params_def)
  show "reachable race_params (race_state (Suc (Suc 0)) (Some 1) Done (Live race_ip) (Live race_ip))"
    by (rule race_reachable_3)
qed (simp_all add: race_state_def)

end
