(* ===== verification/Models.thy ===== *)
theory Models
  imports Rust_Str
begin

text \<open>
  \<open>src/src/models.rs\<close>: the event a client posts, the message on the queue and the body of an HTTP
  answer; and the JSON values of \<open>serde_json\<close> with the two accessors the program uses on them.
\<close>

section \<open>JSON values\<close>

text \<open>The program never looks inside a number, which is kept as its text.\<close>

datatype json =
    JNull
  | JBool bool
  | JNumber rstr
  | JString rstr
  | JArray "json list"
  | JObject "(rstr \<times> json) list"

text \<open>\<open>value["key"]\<close> on a shared value: \<open>Null\<close> when it is no object or has no such key.\<close>

definition json_get :: "json \<Rightarrow> rstr \<Rightarrow> json" where
  "json_get j k =
     (case j of JObject fs \<Rightarrow> (case map_of fs k of None \<Rightarrow> JNull | Some v \<Rightarrow> v) | _ \<Rightarrow> JNull)"

definition as_str :: "json \<Rightarrow> rstr option" where
  "as_str j = (case j of JString s \<Rightarrow> Some s | _ \<Rightarrow> None)"

text \<open>\<open>p["key"].as_str().unwrap_or(d)\<close>, the only way the program reads a payload.\<close>

definition str_field :: "json \<Rightarrow> string \<Rightarrow> rstr \<Rightarrow> rstr" where
  "str_field p k d = (case as_str (json_get p (lit k)) of None \<Rightarrow> d | Some s \<Rightarrow> s)"

section \<open>Messages\<close>

text \<open>An error of a service, as the text it displays.\<close>

type_synonym service_error = rstr

record incoming_event =
  ev_id :: rstr
  ev_event_type :: rstr
  ev_payload :: json
  ev_timestamp :: "i64 option"

record queue_message =
  qm_id :: rstr
  qm_event_type :: rstr
  qm_payload :: json
  qm_timestamp :: i64
  qm_received_at :: i64
  qm_table_key :: "rstr option"

record api_response =
  ar_status :: rstr
  ar_message :: rstr

section \<open>Reading the payload the TCP parser builds\<close>

text \<open>The \<open>json!({...})\<close> objects of the program: string fields under literal keys.\<close>

definition str_object :: "(string \<times> rstr) list \<Rightarrow> json" where
  "str_object fs = JObject (map (\<lambda>(k, v). (lit k, JString v)) fs)"

lemma lit_inj [simp]: "lit s = lit t \<longleftrightarrow> s = t"
proof -
  have "inj (of_char :: char \<Rightarrow> nat)" by (rule inj_of_char)
  then show ?thesis by (simp add: lit_def inj_map_eq_map)
qed

lemma str_field_object:
  "str_field (str_object fs) k d = (case map_of fs k of None \<Rightarrow> d | Some s \<Rightarrow> s)"
  by (induction fs) (auto simp: str_field_def str_object_def json_get_def as_str_def)

lemma str_field_no_object:
  "(\<And>fs. p \<noteq> JObject fs) \<Longrightarrow> str_field p k d = d"
  by (cases p) (auto simp: str_field_def json_get_def as_str_def)

end
