(* ===== verification/Services.thy ===== *)
theory Services
  imports Models
begin

text \<open>
  The services and libraries the receiver calls and whose code is not in the repository, as one
  record of functions over a world \<open>'w\<close>: the system clock, the EUC-KR decoder of \<open>encoding_rs\<close>,
  the Redis connection, \<open>serde_json::to_vec\<close> and the AMQP channel of \<open>lapin\<close>. Every definition of
  the receiver that uses one takes the record as an argument. What a property needs to know of a
  service is a named predicate on the record, defined here.
\<close>

section \<open>Errors\<close>

datatype app_error =
    Bail_Id_Length nat
  | Bail_Frame_Too_Short nat
  | Service_Failure service_error

section \<open>The AMQP requests the program makes\<close>

datatype exchange_kind = Fanout | Direct

datatype amqp_request =
    Open_Connection rstr
  | Create_Channel
  | Confirm_Select
  | Exchange_Declare rstr exchange_kind bool
  | Queue_Declare rstr bool "(rstr \<times> rstr) list"
  | Queue_Bind rstr rstr rstr

record publication =
  pub_exchange :: rstr
  pub_routing_key :: rstr
  pub_body :: bytes
  pub_content_type :: rstr
  pub_delivery_mode :: nat

text \<open>\<open>lapin::publisher_confirm::Confirmation\<close>: a negative acknowledgement is a value of it.\<close>

datatype confirmation = Confirm_Ack | Confirm_Nack | Confirm_Not_Requested

section \<open>The record of services\<close>

record 'w env =
  clock_ms :: "'w \<Rightarrow> nat option"
    \<comment> \<open>milliseconds since the Unix epoch; \<open>None\<close> when the clock is before it\<close>
  euc_kr_decode :: "bytes \<Rightarrow> rstr"
  redis_query :: "'w \<Rightarrow> rstr list \<Rightarrow> 'w \<times> (service_error + rstr option)"
    \<comment> \<open>one command with its arguments, the reply read as \<open>Option<String>\<close>\<close>
  to_vec :: "queue_message \<Rightarrow> service_error + bytes"
  amqp_call :: "'w \<Rightarrow> amqp_request \<Rightarrow> 'w \<times> (service_error + unit)"
  basic_publish :: "'w \<Rightarrow> publication \<Rightarrow> 'w \<times> (service_error + nat)"
    \<comment> \<open>the pending confirmation is a number\<close>
  await_confirm :: "'w \<Rightarrow> nat \<Rightarrow> 'w \<times> (service_error + confirmation)"

record app_state =
  st_ttl_secs :: u64
  st_exchange :: rstr

text \<open>\<open>as_millis() as i64\<close>: the low 64 bits.\<close>

definition millis_i64 :: "nat \<Rightarrow> i64" where
  "millis_i64 n = word_of_nat n"

section \<open>Recording the calls\<close>

text \<open>
  A world that also keeps the list of the calls made so far, with their answers. \<open>traced env\<close> is
  the record that makes the calls of \<open>env\<close> and records them; a property of the calls a definition
  makes is stated over it.
\<close>

datatype call =
    Redis_Call "rstr list" "service_error + rstr option"
  | Publish_Call publication "service_error + nat"
  | Confirm_Call nat "service_error + confirmation"
  | Amqp_Call amqp_request "service_error + unit"

definition traced :: "'w env \<Rightarrow> ('w \<times> call list) env" where
  "traced env =
     \<lparr> clock_ms = (\<lambda>(w, l). clock_ms env w),
       euc_kr_decode = euc_kr_decode env,
       redis_query = (\<lambda>(w, l) args.
         (case redis_query env w args of (w', r) \<Rightarrow> ((w', l @ [Redis_Call args r]), r))),
       to_vec = to_vec env,
       amqp_call = (\<lambda>(w, l) q.
         (case amqp_call env w q of (w', r) \<Rightarrow> ((w', l @ [Amqp_Call q r]), r))),
       basic_publish = (\<lambda>(w, l) p.
         (case basic_publish env w p of (w', r) \<Rightarrow> ((w', l @ [Publish_Call p r]), r))),
       await_confirm = (\<lambda>(w, l) t.
         (case await_confirm env w t of (w', r) \<Rightarrow> ((w', l @ [Confirm_Call t r]), r))) \<rparr>"

lemma traced_simps [simp]:
  "clock_ms (traced env) (w, l) = clock_ms env w"
  "euc_kr_decode (traced env) = euc_kr_decode env"
  "to_vec (traced env) = to_vec env"
  "redis_query (traced env) (w, l) args =
     (case redis_query env w args of (w', r) \<Rightarrow> ((w', l @ [Redis_Call args r]), r))"
  "amqp_call (traced env) (w, l) q =
     (case amqp_call env w q of (w', r) \<Rightarrow> ((w', l @ [Amqp_Call q r]), r))"
  "basic_publish (traced env) (w, l) p =
     (case basic_publish env w p of (w', r) \<Rightarrow> ((w', l @ [Publish_Call p r]), r))"
  "await_confirm (traced env) (w, l) t =
     (case await_confirm env w t of (w', r) \<Rightarrow> ((w', l @ [Confirm_Call t r]), r))"
  by (simp_all add: traced_def)

section \<open>Named hypotheses on the services\<close>

text \<open>EUC-KR is a superset of ASCII: ASCII bytes decode to themselves.\<close>

definition decodes_ascii :: "(bytes \<Rightarrow> rstr) \<Rightarrow> bool" where
  "decodes_ascii dec \<longleftrightarrow> (\<forall>bs. (\<forall>b \<in> set bs. unat b < 128) \<longrightarrow> dec bs = map unat bs)"

lemma decodes_asciiD:
  "decodes_ascii dec \<Longrightarrow> (\<And>b. b \<in> set bs \<Longrightarrow> unat b < 128) \<Longrightarrow> dec bs = map unat bs"
  by (simp add: decodes_ascii_def)

end
