(* ===== verification/Dedup.thy ===== *)
theory Dedup
  imports Services
begin

text \<open>
  \<open>src/src/dedup.rs\<close>: the duplicate filter. The check of the length, the key and the single
  \<open>SET key 1 NX EX ttl\<close> command are the code's; what Redis answers is the environment's.
\<close>

text \<open>
  \<open>DedupChecker::new\<close>: the client is made from the URL, which can fail, and its first connection is
  awaited, which can fail too. Of the checker the model keeps the time to live; its connection is the
  environment's.
\<close>

record dedup_checker =
  dc_ttl_secs :: u64

definition dedup_new ::
  "(rstr \<Rightarrow> service_error + 'c) \<Rightarrow> ('c \<Rightarrow> service_error + unit) \<Rightarrow> rstr \<Rightarrow> u64 \<Rightarrow> app_error + dedup_checker"
where
  "dedup_new open_client connect_manager redis_url ttl_secs =
     (case open_client redis_url of
        Inl e \<Rightarrow> Inl (Service_Failure e)
      | Inr client \<Rightarrow>
          (case connect_manager client of
             Inl e \<Rightarrow> Inl (Service_Failure e)
           | Inr _ \<Rightarrow> Inr \<lparr> dc_ttl_secs = ttl_secs \<rparr>))"

definition dedup_key :: "rstr \<Rightarrow> rstr" where
  "dedup_key event_id = lit ''dedup:'' @ event_id"

definition set_nx_args :: "u64 \<Rightarrow> rstr \<Rightarrow> rstr list" where
  "set_nx_args ttl key =
     [lit ''SET'', key, lit ''1'', lit ''NX'', lit ''EX'', dec_str (unat ttl)]"

definition is_new :: "'w env \<Rightarrow> u64 \<Rightarrow> 'w \<Rightarrow> rstr \<Rightarrow> 'w \<times> (app_error + bool)" where
  "is_new env ttl_secs w event_id =
     (if event_id = [] \<or> byte_len event_id > 512
      then (w, Inl (Bail_Id_Length (byte_len event_id)))
      else
        (case redis_query env w (set_nx_args ttl_secs (dedup_key event_id)) of
           (w', Inl e) \<Rightarrow> (w', Inl (Service_Failure e))
         | (w', Inr r) \<Rightarrow> (w', Inr (case r of Some _ \<Rightarrow> True | None \<Rightarrow> False))))"

section \<open>What Redis documents of the command\<close>

text \<open>
  \<open>holds w k\<close>: the key is set and unexpired in \<open>w\<close>. \<open>SET ... NX\<close> answers \<open>OK\<close> exactly when the
  key was not held, and then it is; when it was held the answer is nil; an error may come at any
  time, and no command of this shape removes a key.
\<close>

definition redis_nx :: "'w env \<Rightarrow> ('w \<Rightarrow> rstr \<Rightarrow> bool) \<Rightarrow> bool" where
  "redis_nx env holds \<longleftrightarrow>
     (\<forall>w ttl k w' r. redis_query env w (set_nx_args ttl k) = (w', r) \<longrightarrow>
        (\<forall>v. r = Inr (Some v) \<longrightarrow> \<not> holds w k \<and> holds w' k) \<and>
        (r = Inr None \<longrightarrow> holds w k) \<and>
        (\<forall>j. holds w j \<longrightarrow> holds w' j))"

section \<open>Lemmas\<close>

lemma dedup_new_Inr:
  "dedup_new open_client connect_manager url ttl = Inr dc \<longleftrightarrow>
   (\<exists>c. open_client url = Inr c \<and> connect_manager c = Inr ()) \<and> dc = \<lparr> dc_ttl_secs = ttl \<rparr>"
  by (auto simp: dedup_new_def split: sum.splits)

lemma dedup_key_inj [simp]: "dedup_key a = dedup_key b \<longleftrightarrow> a = b"
  by (simp add: dedup_key_def)

lemma is_new_length:
  "event_id = [] \<or> byte_len event_id > 512 \<Longrightarrow>
   is_new env ttl w event_id = (w, Inl (Bail_Id_Length (byte_len event_id)))"
  by (simp add: is_new_def)

lemma is_new_query:
  "event_id \<noteq> [] \<Longrightarrow> byte_len event_id \<le> 512 \<Longrightarrow>
   is_new env ttl w event_id =
     (case redis_query env w (set_nx_args ttl (dedup_key event_id)) of
        (w', Inl e) \<Rightarrow> (w', Inl (Service_Failure e))
      | (w', Inr r) \<Rightarrow> (w', Inr (case r of Some _ \<Rightarrow> True | None \<Rightarrow> False)))"
  by (simp add: is_new_def)

lemma redis_nxD:
  assumes "redis_nx env holds" and "redis_query env w (set_nx_args ttl k) = (w', r)"
  shows "r = Inr (Some v) \<Longrightarrow> \<not> holds w k"
    and "r = Inr (Some v) \<Longrightarrow> holds w' k"
    and "r = Inr None \<Longrightarrow> holds w k"
    and "holds w j \<Longrightarrow> holds w' j"
  using assms unfolding redis_nx_def by blast+

lemma is_new_True:
  "redis_nx env holds \<Longrightarrow> is_new env ttl w i = (w', Inr True) \<Longrightarrow>
   \<not> holds w (dedup_key i) \<and> holds w' (dedup_key i)"
  by (auto simp: is_new_def dest: redis_nxD(1,2) split: if_splits prod.splits sum.splits option.splits)

lemma is_new_keeps:
  "redis_nx env holds \<Longrightarrow> is_new env ttl w i = (w', r) \<Longrightarrow> holds w j \<Longrightarrow> holds w' j"
  by (auto simp: is_new_def dest: redis_nxD(4) split: if_splits prod.splits sum.splits)

lemma is_new_held:
  "redis_nx env holds \<Longrightarrow> holds w (dedup_key i) \<Longrightarrow> snd (is_new env ttl w i) \<noteq> Inr True"
  by (auto simp: is_new_def dest: redis_nxD(1) split: if_splits prod.splits sum.splits option.splits)

end
