(* ===== verification/Parser.thy ===== *)
theory Parser
  imports Masking Services
begin

text \<open>
  \<open>src/src/parser.rs\<close>: a fixed-length card telegram becomes a queue message. Every field is cut at
  its offset, decoded from EUC-KR (a parameter) and trimmed; the card number and the business
  number are masked in the payload, while the raw business number is the routing key.
\<close>

section \<open>Fields\<close>

definition field :: "(bytes \<Rightarrow> rstr) \<Rightarrow> bytes \<Rightarrow> nat \<Rightarrow> nat \<Rightarrow> rstr" where
  "field dec payload offset len =
     (let end' = min (offset + len) (length payload) in
      if offset \<ge> length payload then []
      else trim (dec (take (end' - offset) (drop offset payload))))"

section \<open>The telegram\<close>

definition card_payload :: "(bytes \<Rightarrow> rstr) \<Rightarrow> bytes \<Rightarrow> (string \<times> rstr) list" where
  "card_payload dec payload =
     (let merchant_type   = field dec payload 0 8;
          msg_type        = field dec payload 8 4;
          tran_unique_nbr = field dec payload 12 12;
          response_code   = field dec payload 24 2;
          terminal_no     = field dec payload 26 7;
          installment     = field dec payload 33 2;
          amount          = field dec payload 35 10;
          card_no         = field dec payload 45 16;
          approval_no     = field dec payload 61 10;
          approval_date   = field dec payload 71 8;
          approval_time   = field dec payload 79 6;
          orig_date       = field dec payload 85 8;
          card_type       = field dec payload 93 1;
          issuer_code     = field dec payload 94 3;
          issuer_name     = field dec payload 97 14;
          acquirer_code   = field dec payload 111 3;
          acquirer_name   = field dec payload 114 14;
          merchant_no     = field dec payload 128 14;
          business_no_raw = field dec payload 142 10;
          cancel_flag     = field dec payload 152 1;
          card_no_masked  = mask_card_no card_no;
          business_no     = mask_business_no business_no_raw
      in
      [ (''merchant_type'', merchant_type),
        (''msg_type'', msg_type),
        (''tran_unique_nbr'', tran_unique_nbr),
        (''response_code'', response_code),
        (''terminal_no'', terminal_no),
        (''installment'', installment),
        (''amount'', amount),
        (''card_no'', card_no_masked),
        (''approval_no'', approval_no),
        (''approval_date'', approval_date),
        (''approval_time'', approval_time),
        (''orig_date'', orig_date),
        (''card_type'', card_type),
        (''issuer_code'', issuer_code),
        (''issuer_name'', issuer_name),
        (''acquirer_code'', acquirer_code),
        (''acquirer_name'', acquirer_name),
        (''merchant_no'', merchant_no),
        (''business_no'', business_no),
        (''cancel_flag'', cancel_flag) ])"

text \<open>\<open>parse_frame\<close>; a clock before the epoch counts as the epoch (\<open>unwrap_or_default\<close>).\<close>

definition parse_frame :: "'w env \<Rightarrow> 'w \<Rightarrow> bytes \<Rightarrow> app_error + queue_message" where
  "parse_frame env w frame =
     (if length frame < 153 then Inl (Bail_Frame_Too_Short (length frame))
      else
        let dec = euc_kr_decode env;
            now_ms = millis_i64 (case clock_ms env w of Some n \<Rightarrow> n | None \<Rightarrow> 0)
        in Inr \<lparr> qm_id = field dec frame 12 12,
                 qm_event_type = lit ''card_tx_'' @ field dec frame 8 4,
                 qm_payload = str_object (card_payload dec frame),
                 qm_timestamp = now_ms,
                 qm_received_at = now_ms,
                 qm_table_key = Some (field dec frame 142 10) \<rparr>)"

section \<open>Lemmas\<close>

lemma field_trimmed [simp]: "trimmed (field dec p n k)"
  by (simp add: field_def Let_def trimmed_def [of "[]"])

lemma trim_field [simp]: "trim (field dec p n k) = field dec p n k"
  by (rule trimmed_trim) (rule field_trimmed)

lemma field_within:
  "n + k \<le> length p \<Longrightarrow> 0 < k \<Longrightarrow> field dec p n k = trim (dec (take k (drop n p)))"
  by (simp add: field_def Let_def min_def)

definition ascii_bytes :: "bytes \<Rightarrow> bool" where
  "ascii_bytes bs \<longleftrightarrow> (\<forall>b \<in> set bs. unat b < 128)"

lemma ascii_bytes_sub: "ascii_bytes bs \<Longrightarrow> ascii_bytes (take k (drop n bs))"
  unfolding ascii_bytes_def by (meson in_set_dropD in_set_takeD)

text \<open>On ASCII bytes a field is the trimmed text of its bytes.\<close>

lemma field_ascii:
  assumes "decodes_ascii dec" and "ascii_bytes (take k (drop n p))"
    and "n + k \<le> length p" and "0 < k"
  shows "field dec p n k = trim (map unat (take k (drop n p)))"
  using assms by (simp add: field_within decodes_asciiD ascii_bytes_def)

lemma field_ascii_length:
  assumes "decodes_ascii dec" and "ascii_bytes (take k (drop n p))"
    and "n + k \<le> length p" and "0 < k"
  shows "length (field dec p n k) \<le> k" and "ascii (field dec p n k)"
proof -
  have f: "field dec p n k = trim (map unat (take k (drop n p)))"
    using field_ascii assms by blast
  show "length (field dec p n k) \<le> k"
    unfolding f using length_trim [of "map unat (take k (drop n p))"] by simp
  have "ascii (map unat (take k (drop n p)))"
    using assms(2) by (auto simp: ascii_def ascii_bytes_def)
  then show "ascii (field dec p n k)" unfolding f by (rule ascii_trim)
qed

lemma parse_frame_Inr:
  "parse_frame env w frame = Inr m \<Longrightarrow> 153 \<le> length frame \<and>
     m = \<lparr> qm_id = field (euc_kr_decode env) frame 12 12,
           qm_event_type = lit ''card_tx_'' @ field (euc_kr_decode env) frame 8 4,
           qm_payload = str_object (card_payload (euc_kr_decode env) frame),
           qm_timestamp = millis_i64 (case clock_ms env w of Some n \<Rightarrow> n | None \<Rightarrow> 0),
           qm_received_at = millis_i64 (case clock_ms env w of Some n \<Rightarrow> n | None \<Rightarrow> 0),
           qm_table_key = Some (field (euc_kr_decode env) frame 142 10) \<rparr>"
  by (auto simp: parse_frame_def Let_def split: if_splits)

lemma card_payload_keys: "distinct (map fst (card_payload dec p))"
  by (simp add: card_payload_def Let_def)

text \<open>Reading a field of the parsed payload back.\<close>

lemma payload_field [simp]:
  "str_field (str_object (card_payload dec p)) ''msg_type'' d = field dec p 8 4"
  "str_field (str_object (card_payload dec p)) ''tran_unique_nbr'' d = field dec p 12 12"
  "str_field (str_object (card_payload dec p)) ''response_code'' d = field dec p 24 2"
  "str_field (str_object (card_payload dec p)) ''terminal_no'' d = field dec p 26 7"
  "str_field (str_object (card_payload dec p)) ''amount'' d = field dec p 35 10"
  "str_field (str_object (card_payload dec p)) ''card_no'' d = mask_card_no (field dec p 45 16)"
  "str_field (str_object (card_payload dec p)) ''approval_no'' d = field dec p 61 10"
  "str_field (str_object (card_payload dec p)) ''approval_date'' d = field dec p 71 8"
  "str_field (str_object (card_payload dec p)) ''approval_time'' d = field dec p 79 6"
  "str_field (str_object (card_payload dec p)) ''issuer_name'' d = field dec p 97 14"
  "str_field (str_object (card_payload dec p)) ''acquirer_name'' d = field dec p 114 14"
  "str_field (str_object (card_payload dec p)) ''merchant_no'' d = field dec p 128 14"
  "str_field (str_object (card_payload dec p)) ''business_no'' d =
     mask_business_no (field dec p 142 10)"
  "str_field (str_object (card_payload dec p)) ''cancel_flag'' d = field dec p 152 1"
  unfolding str_field_object by (simp_all add: card_payload_def Let_def)

section \<open>The layout of a telegram\<close>

text \<open>
  The twenty fields a terminal sends, each padded with spaces to its width, and the 17 bytes of
  filler: the inverse that the documentation's table of offsets and lengths describes.
\<close>

definition widths :: "nat list" where
  "widths = [8, 4, 12, 2, 7, 2, 10, 16, 10, 8, 6, 8, 1, 3, 14, 3, 14, 14, 10, 1]"

definition pad_field :: "nat \<Rightarrow> rstr \<Rightarrow> bytes" where
  "pad_field w s = map word_of_nat (s @ replicate (w - length s) 32)"

definition telegram :: "rstr list \<Rightarrow> bytes" where
  "telegram fs = concat (map2 pad_field widths fs) @ replicate 17 32"

definition fields_ok :: "rstr list \<Rightarrow> bool" where
  "fields_ok fs \<longleftrightarrow> list_all2 (\<lambda>w s. length s \<le> w \<and> ascii s \<and> trimmed s) widths fs"

lemma fields_ok_nth:
  "fields_ok fs \<longleftrightarrow>
     length fs = length widths \<and>
     (\<forall>i < length widths. length (fs ! i) \<le> widths ! i \<and> ascii (fs ! i) \<and> trimmed (fs ! i))"
  unfolding fields_ok_def list_all2_conv_all_nth by auto

lemma length_pad_field: "length s \<le> w \<Longrightarrow> length (pad_field w s) = w"
  by (simp add: pad_field_def)

lemma map_unat_pad_field: "ascii s \<Longrightarrow> map unat (pad_field w s) = s @ replicate (w - length s) 32"
  by (auto simp: pad_field_def ascii_def intro!: map_idI)

lemma pieces_length:
  "fields_ok fs \<Longrightarrow> map length (map2 pad_field widths fs) = widths"
  by (auto simp: fields_ok_nth length_pad_field list_eq_iff_nth_eq)

lemma length_telegram: "fields_ok fs \<Longrightarrow> length (telegram fs) = 170"
  using pieces_length [of fs]
  by (simp add: telegram_def length_concat widths_def)

lemma field_telegram:
  assumes "decodes_ascii dec" and "fields_ok fs" and "i < length widths"
  shows "field dec (telegram fs) (sum_list (take i widths)) (widths ! i) = fs ! i"
proof -
  let ?xs = "map2 pad_field widths fs"
  have len: "length ?xs = length widths" using assms(2) by (simp add: fields_ok_nth)
  have piece: "?xs ! i = pad_field (widths ! i) (fs ! i)"
    using assms(2,3) by (simp add: fields_ok_nth)
  have off: "sum_list (map length (take i ?xs)) = sum_list (take i widths)"
    using pieces_length [OF assms(2)] by (simp add: take_map [symmetric] del: map_map)
  have "length (?xs ! i) = widths ! i"
    using pieces_length [OF assms(2)] assms(3) len by (metis nth_map)
  then have cut: "take (widths ! i) (drop (sum_list (take i widths)) (telegram fs)) =
      pad_field (widths ! i) (fs ! i)"
    using take_drop_concat [of i ?xs "replicate 17 32"] assms(3) len off piece
    by (simp add: telegram_def)
  have fi: "ascii (fs ! i)" "trimmed (fs ! i)" using assms(2,3) by (auto simp: fields_ok_nth)
  have "sum_list (take i widths) + widths ! i = sum_list (take (Suc i) widths)"
    using assms(3) by (simp add: take_Suc_conv_app_nth)
  also have "\<dots> \<le> sum_list widths"
    by (metis append_take_drop_id le_add1 sum_list_append)
  finally have fits: "sum_list (take i widths) + widths ! i \<le> length (telegram fs)"
    using length_telegram [OF assms(2)] by (simp add: widths_def)
  have pos: "0 < widths ! i"
    using assms(3) nth_mem [of i widths] by (auto simp: widths_def)
  have ab: "ascii_bytes (pad_field (widths ! i) (fs ! i))"
    using fi(1) by (auto simp: pad_field_def ascii_bytes_def ascii_def)
  have "field dec (telegram fs) (sum_list (take i widths)) (widths ! i) =
      trim (map unat (pad_field (widths ! i) (fs ! i)))"
    using field_ascii [OF assms(1) _ fits pos] ab cut by simp
  then show ?thesis using fi by (simp add: map_unat_pad_field trim_pad)
qed

text \<open>The offsets and lengths the parser cuts at are those of the table.\<close>

lemma fields_at:
  assumes "decodes_ascii dec" and "fields_ok fs"
  shows "field dec (telegram fs) 0 8 = fs ! 0" "field dec (telegram fs) 8 4 = fs ! 1"
    "field dec (telegram fs) 12 12 = fs ! 2" "field dec (telegram fs) 24 2 = fs ! 3"
    "field dec (telegram fs) 26 7 = fs ! 4" "field dec (telegram fs) 33 2 = fs ! 5"
    "field dec (telegram fs) 35 10 = fs ! 6" "field dec (telegram fs) 45 16 = fs ! 7"
    "field dec (telegram fs) 61 10 = fs ! 8" "field dec (telegram fs) 71 8 = fs ! 9"
    "field dec (telegram fs) 79 6 = fs ! 10" "field dec (telegram fs) 85 8 = fs ! 11"
    "field dec (telegram fs) 93 1 = fs ! 12" "field dec (telegram fs) 94 3 = fs ! 13"
    "field dec (telegram fs) 97 14 = fs ! 14" "field dec (telegram fs) 111 3 = fs ! 15"
    "field dec (telegram fs) 114 14 = fs ! 16" "field dec (telegram fs) 128 14 = fs ! 17"
    "field dec (telegram fs) 142 10 = fs ! 18" "field dec (telegram fs) 152 1 = fs ! 19"
  using field_telegram [OF assms, of 0] field_telegram [OF assms, of 1]
    field_telegram [OF assms, of 2] field_telegram [OF assms, of 3]
    field_telegram [OF assms, of 4] field_telegram [OF assms, of 5]
    field_telegram [OF assms, of 6] field_telegram [OF assms, of 7]
    field_telegram [OF assms, of 8] field_telegram [OF assms, of 9]
    field_telegram [OF assms, of 10] field_telegram [OF assms, of 11]
    field_telegram [OF assms, of 12] field_telegram [OF assms, of 13]
    field_telegram [OF assms, of 14] field_telegram [OF assms, of 15]
    field_telegram [OF assms, of 16] field_telegram [OF assms, of 17]
    field_telegram [OF assms, of 18] field_telegram [OF assms, of 19]
  by (simp_all add: widths_def)

text \<open>The message the parser is to make of twenty field texts.\<close>

definition expected_payload :: "rstr list \<Rightarrow> (string \<times> rstr) list" where
  "expected_payload fs =
     zip [''merchant_type'', ''msg_type'', ''tran_unique_nbr'', ''response_code'', ''terminal_no'',
          ''installment'', ''amount'', ''card_no'', ''approval_no'', ''approval_date'',
          ''approval_time'', ''orig_date'', ''card_type'', ''issuer_code'', ''issuer_name'',
          ''acquirer_code'', ''acquirer_name'', ''merchant_no'', ''business_no'', ''cancel_flag'']
       (fs[7 := mask_card_no (fs ! 7), 18 := mask_business_no (fs ! 18)])"

lemma length_20_nth:
  "length fs = 20 \<Longrightarrow> fs = [fs ! 0, fs ! 1, fs ! 2, fs ! 3, fs ! 4, fs ! 5, fs ! 6, fs ! 7, fs ! 8,
     fs ! 9, fs ! 10, fs ! 11, fs ! 12, fs ! 13, fs ! 14, fs ! 15, fs ! 16, fs ! 17, fs ! 18, fs ! 19]"
  by (rule nth_equalityI) (auto simp: less_Suc_eq nth_Cons' numeral_eq_Suc)

lemma card_payload_telegram:
  assumes "decodes_ascii dec" and "fields_ok fs"
  shows "card_payload dec (telegram fs) = expected_payload fs"
proof -
  have "length fs = 20" using assms(2) by (simp add: fields_ok_nth widths_def)
  then obtain ts where ts: "fs[7 := mask_card_no (fs ! 7), 18 := mask_business_no (fs ! 18)] = ts"
    "length ts = 20" "\<And>i. i < 20 \<Longrightarrow> ts ! i =
      (if i = 7 then mask_card_no (fs ! 7) else if i = 18 then mask_business_no (fs ! 18) else fs ! i)"
    by (auto simp: nth_list_update)
  show ?thesis
    unfolding expected_payload_def ts(1)
    by (subst length_20_nth [OF ts(2)])
      (simp add: ts(3) card_payload_def fields_at [OF assms] del: One_nat_def)
qed

lemma parse_telegram_eq:
  assumes "decodes_ascii (euc_kr_decode env)" and "fields_ok fs"
  shows "parse_frame env w (telegram fs) =
    Inr \<lparr> qm_id = fs ! 2,
          qm_event_type = lit ''card_tx_'' @ fs ! 1,
          qm_payload = str_object (expected_payload fs),
          qm_timestamp = millis_i64 (case clock_ms env w of Some n \<Rightarrow> n | None \<Rightarrow> 0),
          qm_received_at = millis_i64 (case clock_ms env w of Some n \<Rightarrow> n | None \<Rightarrow> 0),
          qm_table_key = Some (fs ! 18) \<rparr>"
  using assms
  by (simp add: parse_frame_def Let_def length_telegram card_payload_telegram fields_at)

end
