(* ===== verification/Demo_Env.thy ===== *)
theory Demo_Env
  imports Dedup Parser
begin

text \<open>
  A concrete record of services, the instance at which the hypotheses of the properties are shown to
  hold: a Redis that keeps its keys in a list and never expires one, a broker that stores what is
  published and acknowledges it, a clock that stands still and a decoder that reads each byte as a
  character. \<open>failing_env\<close> is the same with a broker that refuses every publication, and
  \<open>nack_env\<close> with one that answers each with a negative acknowledgement.
\<close>

record demo_world =
  dw_keys :: "rstr list"
  dw_published :: "publication list"
  dw_sent :: "bytes list"

definition demo_world0 :: demo_world where
  "demo_world0 = \<lparr> dw_keys = [], dw_published = [], dw_sent = [] \<rparr>"

definition demo_redis :: "demo_world \<Rightarrow> rstr list \<Rightarrow> demo_world \<times> (service_error + rstr option)" where
  "demo_redis w args =
     (case args of
        _ # k # _ \<Rightarrow>
          if k \<in> set (dw_keys w) then (w, Inr None)
          else (w\<lparr>dw_keys := k # dw_keys w\<rparr>, Inr (Some (lit ''OK'')))
      | _ \<Rightarrow> (w, Inl (lit ''ERR'')))"

definition demo_env :: "demo_world env" where
  "demo_env =
     \<lparr> clock_ms = (\<lambda>w. Some 1000),
       euc_kr_decode = map unat,
       redis_query = demo_redis,
       to_vec = (\<lambda>m. Inr (str_bytes (qm_id m))),
       amqp_call = (\<lambda>w q. (w, Inr ())),
       basic_publish = (\<lambda>w p. (w\<lparr>dw_published := dw_published w @ [p]\<rparr>, Inr 0)),
       await_confirm = (\<lambda>w t. (w, Inr Confirm_Ack)) \<rparr>"

definition failing_env :: "demo_world env" where
  "failing_env = demo_env\<lparr>basic_publish := (\<lambda>w p. (w, Inl (lit ''refused'')))\<rparr>"

definition nack_env :: "demo_world env" where
  "nack_env = demo_env\<lparr>basic_publish := (\<lambda>w p. (w, Inr 0)), await_confirm := (\<lambda>w t. (w, Inr Confirm_Nack))\<rparr>"

definition demo_write :: "demo_world \<Rightarrow> bytes \<Rightarrow> demo_world \<times> ('k + unit)" where
  "demo_write w bs = (w\<lparr>dw_sent := dw_sent w @ [bs]\<rparr>, Inr ())"

definition demo_state :: app_state where
  "demo_state = \<lparr> st_ttl_secs = 300, st_exchange = lit ''events'' \<rparr>"

lemma demo_env_sel [simp]:
  "clock_ms demo_env = (\<lambda>w. Some 1000)"
  "euc_kr_decode demo_env = map unat"
  "redis_query demo_env = demo_redis"
  "to_vec demo_env = (\<lambda>m. Inr (str_bytes (qm_id m)))"
  "basic_publish demo_env = (\<lambda>w p. (w\<lparr>dw_published := dw_published w @ [p]\<rparr>, Inr 0))"
  "await_confirm demo_env = (\<lambda>w t. (w, Inr Confirm_Ack))"
  "euc_kr_decode failing_env = map unat" "redis_query failing_env = demo_redis"
  "basic_publish failing_env = (\<lambda>w p. (w, Inl (lit ''refused'')))"
  "to_vec failing_env = (\<lambda>m. Inr (str_bytes (qm_id m)))"
  "clock_ms failing_env = (\<lambda>w. Some 1000)"
  "euc_kr_decode nack_env = map unat" "redis_query nack_env = demo_redis"
  "basic_publish nack_env = (\<lambda>w p. (w, Inr 0))"
  "await_confirm nack_env = (\<lambda>w t. (w, Inr Confirm_Nack))"
  "to_vec nack_env = (\<lambda>m. Inr (str_bytes (qm_id m)))"
  "clock_ms nack_env = (\<lambda>w. Some 1000)"
  by (simp_all add: demo_env_def failing_env_def nack_env_def)

lemma demo_decodes_ascii: "decodes_ascii (map unat)"
  by (simp add: decodes_ascii_def)

definition demo_holds :: "demo_world \<Rightarrow> rstr \<Rightarrow> bool" where
  "demo_holds w k \<longleftrightarrow> k \<in> set (dw_keys w)"

lemma demo_redis_nx:
  "redis_query env = demo_redis \<Longrightarrow> redis_nx env demo_holds"
  by (auto simp: redis_nx_def demo_redis_def set_nx_args_def demo_holds_def split: if_splits)

section \<open>A telegram\<close>

text \<open>A request for 50000; \<open>mt\<close> is its message type, \<open>cno\<close> its card number.\<close>

definition demo_fields :: "string \<Rightarrow> string \<Rightarrow> rstr list" where
  "demo_fields mt cno =
     map lit [''HYPOS001'', mt, ''202406180001'', '''', ''T123456'', ''00'', ''0000050000'', cno,
       ''00012345'', ''20240618'', ''143000'', '''', ''C'', ''001'', ''KB Card'', ''002'',
       ''BC Card'', ''M0001'', ''1234567890'', ''0'']"

definition demo_frame :: "string \<Rightarrow> bytes" where
  "demo_frame mt = telegram (demo_fields mt ''1234567890123456'')"

lemma demo_fields_ok:
  "fields_ok (demo_fields ''0100'' ''1234567890123456'')"
  "fields_ok (demo_fields ''0200'' ''1234567890123456'')"
  "fields_ok (demo_fields ''010'' ''1234567890123456'')"
  "fields_ok (demo_fields ''0100'' ''1234569999993456'')"
  by (simp_all add: fields_ok_def demo_fields_def widths_def lit_def trimmed_def is_ws_def)

lemma demo_frame_length [simp]:
  "length (demo_frame ''0100'') = 170" "length (demo_frame ''0200'') = 170"
  "length (demo_frame ''010'') = 170"
  by (simp_all add: demo_frame_def length_telegram demo_fields_ok)

lemma demo_frame_type [simp]:
  "field (map unat) (demo_frame ''0100'') 8 4 = lit ''0100''"
  "field (map unat) (demo_frame ''0200'') 8 4 = lit ''0200''"
  "field (map unat) (demo_frame ''010'') 8 4 = lit ''010''"
  by (simp_all add: demo_frame_def fields_at [OF demo_decodes_ascii] demo_fields_ok)
    (simp_all add: demo_fields_def)

lemma demo_fields_nth [simp]:
  "demo_fields mt cno ! 1 = lit mt" "demo_fields mt cno ! Suc 0 = lit mt"
  "demo_fields mt cno ! 2 = lit ''202406180001''" "demo_fields mt cno ! 18 = lit ''1234567890''"
  by (simp_all add: demo_fields_def)

lemma demo_parse [simp]:
  assumes "euc_kr_decode env = map unat" and "fields_ok (demo_fields mt ''1234567890123456'')"
  shows "\<exists>m. parse_frame env w (demo_frame mt) = Inr m \<and> qm_id m = lit ''202406180001''"
  using parse_telegram_eq [of env, OF _ assms(2)] assms(1) demo_decodes_ascii
  by (simp add: demo_frame_def)

end
