(* ===== verification/Parser_Properties.thy ===== *)
theory Parser_Properties
  imports Demo_Env
begin

text \<open>
  The properties of \<open>src/src/parser.rs\<close> and of the masks of \<open>src/src/security.rs\<close>.
\<close>

text \<open>
  C13: parsing inverts the layout of a telegram: every one of the twenty fields comes back, trimmed
  of its padding, under its name; the transaction number is the message's id, and the card number
  and the business number are masked in the payload.
\<close>

theorem parse_telegram:
  assumes "decodes_ascii (euc_kr_decode env)" and "fields_ok fs"
  shows "parse_frame env w (telegram fs) =
    Inr \<lparr> qm_id = fs ! 2,
          qm_event_type = lit ''card_tx_'' @ fs ! 1,
          qm_payload = str_object (expected_payload fs),
          qm_timestamp = millis_i64 (case clock_ms env w of Some n \<Rightarrow> n | None \<Rightarrow> 0),
          qm_received_at = millis_i64 (case clock_ms env w of Some n \<Rightarrow> n | None \<Rightarrow> 0),
          qm_table_key = Some (fs ! 18) \<rparr>"
  using parse_telegram_eq [OF assms] .

theorem parse_telegram_witness:
  "\<exists>m. parse_frame demo_env demo_world0 (demo_frame ''0100'') = Inr m \<and>
     qm_id m = lit ''202406180001'' \<and> qm_table_key m = Some (lit ''1234567890'')"
  using parse_telegram [of demo_env _ demo_world0, OF _ demo_fields_ok(1)] demo_decodes_ascii
  by (simp add: demo_frame_def demo_fields_def)

text \<open>
  C39: a masked card number hides its middle: two telegrams that differ in nothing but the digits
  between the first six and the last four of a card number of ten or more characters (with no
  asterisk in it) give the same message, so nothing the receiver publishes depends on those digits.
\<close>

theorem parse_hides_card_middle:
  assumes "decodes_ascii (euc_kr_decode env)" and "fields_ok fs" and "fields_ok (fs[7 := c])"
    and "length c = length (fs ! 7)" and "10 \<le> length c" and "42 \<notin> set c" and "42 \<notin> set (fs ! 7)"
    and "take 6 c = take 6 (fs ! 7)" and "drop (length c - 4) c = drop (length c - 4) (fs ! 7)"
  shows "parse_frame env w (telegram (fs[7 := c])) = parse_frame env w (telegram fs)"
proof -
  have len: "length fs = 20" using assms(2) by (simp add: fields_ok_nth widths_def)
  have "trimmed c" "trimmed (fs ! 7)"
    using assms(2,3) len by (auto simp: fields_ok_nth widths_def dest: spec [of _ 7])
  then have "mask_card_no c = mask_card_no (fs ! 7)"
    using assms(4-9) by (simp add: mask_card_long trimmed_trim)
  then have "expected_payload (fs[7 := c]) = expected_payload fs"
    using len by (simp add: expected_payload_def)
  then show ?thesis
    using assms(1-3) len
    by (simp add: parse_frame_def Let_def length_telegram card_payload_telegram fields_at)
qed

theorem parse_hides_card_middle_witness:
  "parse_frame demo_env demo_world0
     (telegram ((demo_fields ''0100'' ''1234567890123456'')[7 := lit ''1234569999993456''])) =
   parse_frame demo_env demo_world0 (telegram (demo_fields ''0100'' ''1234567890123456''))"
proof (rule parse_hides_card_middle)
  have "(demo_fields ''0100'' ''1234567890123456'')[7 := lit ''1234569999993456''] =
      demo_fields ''0100'' ''1234569999993456''"
    by (simp add: demo_fields_def)
  then show "fields_ok ((demo_fields ''0100'' ''1234567890123456'')[7 := lit ''1234569999993456''])"
    by (simp add: demo_fields_ok)
qed (simp_all add: demo_decodes_ascii demo_fields_ok, simp_all add: demo_fields_def lit_def)

text \<open>
  The shape of a masked card number, on every branch: the text is trimmed; with fewer than ten
  characters or an asterisk it is left as it is, and otherwise it keeps its length, its first six
  and its last four characters, with asterisks between. At exactly ten characters nothing is hidden.
\<close>

lemma mask_card_no_shape:
  "mask_card_no s =
     (if length (trim s) < 10 \<or> 42 \<in> set (trim s) then trim s
      else take 6 (trim s) @ replicate (length (trim s) - 10) 42 @
           drop (length (trim s) - 4) (trim s)) \<and>
   length (mask_card_no s) = length (trim s) \<and>
   (length (trim s) = 10 \<longrightarrow> mask_card_no s = trim s)"
proof (intro conjI)
  show "mask_card_no s =
      (if length (trim s) < 10 \<or> 42 \<in> set (trim s) then trim s
       else take 6 (trim s) @ replicate (length (trim s) - 10) 42 @
            drop (length (trim s) - 4) (trim s))"
    by (auto simp: mask_card_short mask_card_long)
  show "length (mask_card_no s) = length (trim s)" by (rule mask_card_length)
  have "length (trim s) = 10 \<Longrightarrow> take 6 (trim s) @ drop 6 (trim s) = trim s" by simp
  then show "length (trim s) = 10 \<longrightarrow> mask_card_no s = trim s"
    by (cases "42 \<in> set (trim s)") (auto simp: mask_card_short mask_card_long)
qed

lemma mask_card_ten_digits:
  "mask_card_no (lit ''1234567890'') = lit ''1234567890''"
proof -
  have "trim (lit ''1234567890'') = lit ''1234567890''"
    by (simp add: lit_def trim_def is_ws_def)
  moreover have "length (lit ''1234567890'') = 10" by (simp add: lit_def)
  ultimately show ?thesis using mask_card_no_shape [of "lit ''1234567890''"] by simp
qed

text \<open>
  Both masks are fixed points of themselves and of trimming: masking a field again, or trimming a
  masked one as the consumers do, changes nothing.
\<close>

lemma masks_stable:
  "mask_card_no (trim (mask_card_no s)) = mask_card_no s \<and> trim (mask_card_no s) = mask_card_no s \<and>
   mask_business_no (trim (mask_business_no s)) = mask_business_no s \<and>
   trim (mask_business_no s) = mask_business_no s"
  by (simp add: card_mask.trim_mask card_mask.mask_fixed business_mask.trim_mask
      business_mask.mask_fixed)

end
