(* ===== verification/Config.thy ===== *)
theory Config
  imports Net_Addr
begin

text \<open>
  \<open>src/src/config.rs\<close>: the configuration read from the environment. \<open>std::env::var\<close> is a map
  from names to values; a name with no value, or with one that is not Unicode, is absent. An
  \<open>expect\<close> that fails panics, so \<open>from_env\<close> gives a whole configuration or no program at all.
\<close>

section \<open>Passwords in URLs\<close>

definition encode_password_char :: "rchar \<Rightarrow> rstr" where
  "encode_password_char c =
     (if c = 64 then lit ''%40''
      else if c = 35 then lit ''%23''
      else if c = 58 then lit ''%3A''
      else if c = 47 then lit ''%2F''
      else if c = 37 then lit ''%25''
      else [c])"

definition url_encode_password :: "rstr \<Rightarrow> rstr" where
  "url_encode_password s = concat (map encode_password_char s)"

section \<open>The configuration\<close>

record config =
  server_addr :: rstr
  redis_url :: rstr
  rabbitmq_url :: rstr
  mysql_url :: rstr
  postgres_url :: "rstr option"
  dedup_ttl_secs :: nat
  exchange_name :: rstr
  mysql_queue :: rstr
  postgres_queue :: rstr
  dlq_exchange :: rstr
  mysql_dlq_queue :: rstr
  postgres_dlq_queue :: rstr
  telegram_bot_token :: "rstr option"
  telegram_chat_id :: "rstr option"
  tcp_addr :: rstr
  allowed_ips :: "ip_addr list"
  mysql_batch_size :: nat
  mysql_batch_interval_secs :: nat
  pgsql_batch_size :: nat
  pgsql_batch_interval_secs :: nat
  api_key :: rstr
  http_rate_per_second :: nat
  http_rate_burst :: nat
  http_max_body_bytes :: nat
  tcp_max_connections :: nat
  tcp_max_conn_per_ip :: nat
  tcp_max_frame_bytes :: nat

section \<open>Reading one variable\<close>

type_synonym vars = "string \<Rightarrow> rstr option"

definition var_or :: "vars \<Rightarrow> string \<Rightarrow> string \<Rightarrow> rstr" where
  "var_or vs k d = (case vs k of Some v \<Rightarrow> v | None \<Rightarrow> lit d)"

definition var_or_else :: "vars \<Rightarrow> string \<Rightarrow> string \<Rightarrow> rstr option" where
  "var_or_else vs k j = (case vs k of Some v \<Rightarrow> Some v | None \<Rightarrow> vs j)"

definition unwrap_or :: "rstr option \<Rightarrow> rstr \<Rightarrow> rstr" where
  "unwrap_or o1 d = (case o1 of Some v \<Rightarrow> v | None \<Rightarrow> d)"

text \<open>\<open>.parse().expect(...)\<close> at an unsigned type of \<open>w\<close> bits.\<close>

definition expect_unsigned :: "nat \<Rightarrow> rstr \<Rightarrow> nat rust" where
  "expect_unsigned w s = (case parse_unsigned w s of Some n \<Rightarrow> Ret n | None \<Rightarrow> Panic)"

text \<open>\<open>str::split\<close> at a character: always one piece more than separators.\<close>

fun split_on :: "rchar \<Rightarrow> rstr \<Rightarrow> rstr list" where
  "split_on c [] = [[]]"
| "split_on c (d # s) =
     (if d = c then [] # split_on c s
      else (case split_on c s of p # ps \<Rightarrow> (d # p) # ps | [] \<Rightarrow> [[d]]))"

definition parse_allowed_ips :: "rstr \<Rightarrow> ip_addr list" where
  "parse_allowed_ips s = List.map_filter (\<lambda>p. parse_ip_addr (trim p)) (split_on 44 s)"

section \<open>The URLs\<close>

definition redis_url_of :: "vars \<Rightarrow> rstr" where
  "redis_url_of vs =
     (case vs ''REDIS_URL'' of
        Some u \<Rightarrow> u
      | None \<Rightarrow>
          lit ''redis://'' @ var_or vs ''REDIS_HOST'' ''127.0.0.1'' @ lit '':'' @
          var_or vs ''REDIS_PORT'' ''6379'')"

definition rabbitmq_url_of :: "vars \<Rightarrow> rstr" where
  "rabbitmq_url_of vs =
     (case vs ''RABBITMQ_URL'' of
        Some u \<Rightarrow> u
      | None \<Rightarrow>
          let host = var_or vs ''RABBITMQ_V2_HOST'' ''127.0.0.1'';
              port = var_or vs ''RABBITMQ_V2_PORT'' ''5672'';
              user = var_or vs ''RABBITMQ_V2_USER'' ''guest'';
              pass = url_encode_password (var_or vs ''RABBITMQ_V2_PASS'' '''')
          in lit ''amqp://'' @ user @ lit '':'' @ pass @ lit ''@'' @ host @ lit '':'' @ port @
             lit ''/%2F'')"

definition mysql_url_of :: "vars \<Rightarrow> rstr" where
  "mysql_url_of vs =
     (case vs ''MYSQL_URL'' of
        Some u \<Rightarrow> u
      | None \<Rightarrow>
          let host = var_or vs ''MYSQL_HOST'' ''127.0.0.1'';
              port = var_or vs ''MYSQL_PORT'' ''3306'';
              user = var_or vs ''MYSQL_USER'' ''root'';
              pass = url_encode_password (var_or vs ''MYSQL_PASS'' '''');
              db = var_or vs ''MYSQL_DB'' ''''
          in lit ''mysql://'' @ user @ lit '':'' @ pass @ lit ''@'' @ host @ lit '':'' @ port @
             lit ''/'' @ db)"

definition postgres_url_of :: "vars \<Rightarrow> rstr option" where
  "postgres_url_of vs =
     (case vs ''POSTGRES_URL'' of
        Some u \<Rightarrow> Some u
      | None \<Rightarrow>
          (case var_or_else vs ''PGSQL_HOST'' ''POSTGRES_HOST'' of
             None \<Rightarrow> None
           | Some host \<Rightarrow>
               let port = unwrap_or (var_or_else vs ''PGSQL_PORT'' ''POSTGRES_PORT'') (lit ''5432'')
               in (case var_or_else vs ''PGSQL_USER'' ''POSTGRES_USER'' of
                     None \<Rightarrow> None
                   | Some user \<Rightarrow>
                       let pass = url_encode_password
                             (unwrap_or (var_or_else vs ''PGSQL_PASS'' ''POSTGRES_PASS'') []);
                           db = unwrap_or (var_or_else vs ''PGSQL_DB'' ''POSTGRES_DB'') []
                       in Some (lit ''postgres://'' @ user @ lit '':'' @ pass @ lit ''@'' @ host @
                                lit '':'' @ port @ lit ''/'' @ db))))"

section \<open>\<open>Config::from_env\<close>\<close>

definition api_key_of :: "vars \<Rightarrow> rstr rust" where
  "api_key_of vs =
     (case vs ''EASYPOS_SECRET_KEY'' of
        Some k \<Rightarrow> if k = [] then Panic else Ret k
      | None \<Rightarrow> Panic)"

text \<open>The fields in the order the literal of the struct lists them, each evaluated in turn.\<close>

definition from_env :: "vars \<Rightarrow> config rust" where
  "from_env vs =
     bind_rust (expect_unsigned 64
       (unwrap_or (var_or_else vs ''DEDUP_TTL_SECS'' ''REDIS_TTL'') (lit ''300''))) (\<lambda>ttl.
     bind_rust (expect_unsigned 64 (var_or vs ''MYSQL_BATCH_SIZE'' ''100'')) (\<lambda>my_size.
     bind_rust (expect_unsigned 64 (var_or vs ''MYSQL_BATCH_INTERVAL'' ''1'')) (\<lambda>my_int.
     bind_rust (expect_unsigned 64 (var_or vs ''PGSQL_BATCH_SIZE'' ''100'')) (\<lambda>pg_size.
     bind_rust (expect_unsigned 64 (var_or vs ''PGSQL_BATCH_INTERVAL'' ''1'')) (\<lambda>pg_int.
     bind_rust (api_key_of vs) (\<lambda>key.
     bind_rust (expect_unsigned 32 (var_or vs ''HTTP_RATE_PER_SECOND'' ''20'')) (\<lambda>rate.
     bind_rust (expect_unsigned 32 (var_or vs ''HTTP_RATE_BURST'' ''50'')) (\<lambda>burst.
     bind_rust (expect_unsigned 64 (var_or vs ''HTTP_MAX_BODY_BYTES'' ''65536'')) (\<lambda>body.
     bind_rust (expect_unsigned 64 (var_or vs ''TCP_MAX_CONNECTIONS'' ''1000'')) (\<lambda>conns.
     bind_rust (expect_unsigned 64 (var_or vs ''TCP_MAX_CONN_PER_IP'' ''10'')) (\<lambda>per_ip.
     bind_rust (expect_unsigned 64 (var_or vs ''TCP_MAX_FRAME_BYTES'' ''8192'')) (\<lambda>frame.
     Ret \<lparr> server_addr = var_or vs ''SERVER_ADDR'' ''127.0.0.1:8081'',
           redis_url = redis_url_of vs,
           rabbitmq_url = rabbitmq_url_of vs,
           mysql_url = mysql_url_of vs,
           postgres_url = postgres_url_of vs,
           dedup_ttl_secs = ttl,
           exchange_name = var_or vs ''EXCHANGE_NAME'' ''events'',
           mysql_queue = var_or vs ''MYSQL_QUEUE'' ''queue.transactions'',
           postgres_queue = var_or vs ''POSTGRES_QUEUE'' ''queue.analytics'',
           dlq_exchange = var_or vs ''DLQ_EXCHANGE'' ''events.dlq'',
           mysql_dlq_queue = var_or vs ''MYSQL_DLQ_QUEUE'' ''dlq.transactions'',
           postgres_dlq_queue = var_or vs ''POSTGRES_DLQ_QUEUE'' ''dlq.analytics'',
           telegram_bot_token = var_or_else vs ''TELEGRAM_BOT_TOKEN'' ''TELE_TOKEN'',
           telegram_chat_id = var_or_else vs ''TELEGRAM_CHAT_ID'' ''TELE_CHATID'',
           tcp_addr = var_or vs ''TCP_ADDR'' ''0.0.0.0:38701'',
           allowed_ips = parse_allowed_ips (var_or vs ''ALLOWED_IPS'' ''''),
           mysql_batch_size = my_size,
           mysql_batch_interval_secs = my_int,
           pgsql_batch_size = pg_size,
           pgsql_batch_interval_secs = pg_int,
           api_key = key,
           http_rate_per_second = rate,
           http_rate_burst = burst,
           http_max_body_bytes = body,
           tcp_max_connections = conns,
           tcp_max_conn_per_ip = per_ip,
           tcp_max_frame_bytes = frame \<rparr>))))))))))))"

section \<open>Lemmas\<close>

text \<open>Percent-decoding, the inverse a URL library applies.\<close>

fun percent_decode :: "rstr \<Rightarrow> rstr" where
  "percent_decode [] = []"
| "percent_decode (c # s) =
     (if c = 37 then
        (case s of
           a # b # r \<Rightarrow>
             (case (hex_val a, hex_val b) of
                (Some x, Some y) \<Rightarrow> (16 * x + y) # percent_decode r
              | _ \<Rightarrow> c # percent_decode s)
         | _ \<Rightarrow> c # percent_decode s)
      else c # percent_decode s)"

lemma lit_codes [simp]:
  "lit ''%40'' = [37, 52, 48]" "lit ''%23'' = [37, 50, 51]" "lit ''%3A'' = [37, 51, 65]"
  "lit ''%2F'' = [37, 50, 70]" "lit ''%25'' = [37, 50, 53]"
  by (simp_all add: lit_def)

lemma percent_decode_char [simp]:
  "percent_decode (encode_password_char c @ s) = c # percent_decode s"
  by (simp add: encode_password_char_def hex_val_def is_digit_char_def)

lemma encode_password_char_safe:
  "d \<in> set (encode_password_char c) \<Longrightarrow> d \<notin> {64, 35, 58, 47}"
  by (auto simp: encode_password_char_def split: if_splits)

lemma url_encode_safe: "d \<in> set (url_encode_password s) \<Longrightarrow> d \<notin> {64, 35, 58, 47}"
  unfolding url_encode_password_def
  using encode_password_char_safe by fastforce

lemma percent_decode_encode: "percent_decode (url_encode_password s @ t) = s @ percent_decode t"
  by (induction s) (simp_all add: url_encode_password_def)

lemma expect_unsigned_bound: "expect_unsigned w s = Ret n \<Longrightarrow> n < 2 ^ w"
  by (auto simp: expect_unsigned_def parse_unsigned_def split: option.splits if_splits)

lemma api_key_of_Ret: "api_key_of vs = Ret k \<Longrightarrow> k \<noteq> [] \<and> vs ''EASYPOS_SECRET_KEY'' = Some k"
  by (auto simp: api_key_of_def split: option.splits if_splits)

text \<open>A configuration the program runs with.\<close>

definition config_ok :: "config \<Rightarrow> bool" where
  "config_ok c \<longleftrightarrow>
     api_key c \<noteq> [] \<and> dedup_ttl_secs c < 2 ^ 64 \<and> mysql_batch_size c < 2 ^ 64 \<and>
     mysql_batch_interval_secs c < 2 ^ 64 \<and> pgsql_batch_size c < 2 ^ 64 \<and>
     pgsql_batch_interval_secs c < 2 ^ 64 \<and> http_rate_per_second c < 2 ^ 32 \<and>
     http_rate_burst c < 2 ^ 32 \<and> http_max_body_bytes c < 2 ^ 64 \<and>
     tcp_max_connections c < 2 ^ 64 \<and> tcp_max_conn_per_ip c < 2 ^ 64 \<and>
     tcp_max_frame_bytes c < 2 ^ 64 \<and> (\<forall>a \<in> set (allowed_ips c). valid_ip a)"

lemma parse_allowed_ips_valid: "a \<in> set (parse_allowed_ips s) \<Longrightarrow> valid_ip a"
  by (auto simp: parse_allowed_ips_def List.map_filter_def dest: parse_ip_addr_valid)

lemma from_env_ok: "from_env vs = Ret c \<Longrightarrow> config_ok c"
  unfolding from_env_def bind_rust_Ret_iff config_ok_def
  by (auto dest!: expect_unsigned_bound api_key_of_Ret dest: parse_allowed_ips_valid)

lemma from_env_needs_key:
  "vs ''EASYPOS_SECRET_KEY'' = None \<or> vs ''EASYPOS_SECRET_KEY'' = Some [] \<Longrightarrow> from_env vs = Panic"
proof -
  assume "vs ''EASYPOS_SECRET_KEY'' = None \<or> vs ''EASYPOS_SECRET_KEY'' = Some []"
  then have "api_key_of vs = Panic" by (auto simp: api_key_of_def)
  moreover have "from_env vs = Ret c \<Longrightarrow> \<exists>k. api_key_of vs = Ret k" for c
    unfolding from_env_def bind_rust_Ret_iff by blast
  ultimately show ?thesis by (cases "from_env vs") auto
qed

end
