(* ===== verification/Producer.thy ===== *)
theory Producer
  imports Services
begin

text \<open>
  \<open>src/src/producer.rs\<close>: the AMQP topology \<open>connect\<close> declares and the \<open>publish\<close> of one message,
  with the confirmation it waits for.
\<close>

section \<open>Running requests up to the first error\<close>

fun run_requests ::
  "'w env \<Rightarrow> 'w \<Rightarrow> amqp_request list \<Rightarrow> 'w \<times> (app_error + unit)" where
  "run_requests env w [] = (w, Inr ())"
| "run_requests env w (q # qs) =
     (case amqp_call env w q of
        (w', Inl e) \<Rightarrow> (w', Inl (Service_Failure e))
      | (w', Inr _) \<Rightarrow> run_requests env w' qs)"

section \<open>\<open>Producer::connect\<close>\<close>

definition queue_requests :: "rstr \<Rightarrow> rstr \<Rightarrow> rstr \<times> rstr \<Rightarrow> amqp_request list" where
  "queue_requests exchange_name dlq_exchange = (\<lambda>(queue_name, dlq_name).
     [ Queue_Declare queue_name True
         [ (lit ''x-dead-letter-exchange'', dlq_exchange),
           (lit ''x-dead-letter-routing-key'', dlq_name) ],
       Queue_Bind queue_name exchange_name [],
       Queue_Declare dlq_name True [],
       Queue_Bind dlq_name dlq_exchange dlq_name ])"

definition connect_requests ::
  "rstr \<Rightarrow> rstr \<Rightarrow> (rstr \<times> rstr) list \<Rightarrow> rstr \<Rightarrow> amqp_request list" where
  "connect_requests amqp_url exchange_name queues dlq_exchange =
     [ Open_Connection amqp_url,
       Create_Channel,
       Confirm_Select,
       Exchange_Declare exchange_name Fanout True,
       Exchange_Declare dlq_exchange Direct True ]
     @ concat (map (queue_requests exchange_name dlq_exchange) queues)"

definition connect ::
  "'w env \<Rightarrow> 'w \<Rightarrow> rstr \<Rightarrow> rstr \<Rightarrow> (rstr \<times> rstr) list \<Rightarrow> rstr \<Rightarrow> 'w \<times> (app_error + rstr)" where
  "connect env w amqp_url exchange_name queues dlq_exchange =
     (case run_requests env w (connect_requests amqp_url exchange_name queues dlq_exchange) of
        (w', Inl e) \<Rightarrow> (w', Inl e)
      | (w', Inr _) \<Rightarrow> (w', Inr exchange_name))"

section \<open>\<open>Producer::publish\<close>\<close>

definition publication_of :: "rstr \<Rightarrow> bytes \<Rightarrow> publication" where
  "publication_of exchange body =
     \<lparr> pub_exchange = exchange, pub_routing_key = [], pub_body = body,
       pub_content_type = lit ''application/json'', pub_delivery_mode = 2 \<rparr>"

definition publish :: "'w env \<Rightarrow> rstr \<Rightarrow> 'w \<Rightarrow> queue_message \<Rightarrow> 'w \<times> (app_error + unit)" where
  "publish env exchange w msg =
     (case to_vec env msg of
        Inl e \<Rightarrow> (w, Inl (Service_Failure e))
      | Inr body \<Rightarrow>
          (case basic_publish env w (publication_of exchange body) of
             (w1, Inl e) \<Rightarrow> (w1, Inl (Service_Failure e))
           | (w1, Inr confirm) \<Rightarrow>
               (case await_confirm env w1 confirm of
                  (w2, Inl e) \<Rightarrow> (w2, Inl (Service_Failure e))
                | (w2, Inr _) \<Rightarrow> (w2, Inr ()))))"

section \<open>The declared topology\<close>

text \<open>
  The calls of a run of requests: all of them when it succeeds, and otherwise those up to the
  first that fails, each before it answered with success.
\<close>

lemma run_requests_ok:
  "run_requests (traced env) (w, l) qs = ((w', l'), Inr ()) \<Longrightarrow>
   l' = l @ map (\<lambda>q. Amqp_Call q (Inr ())) qs"
  by (induction qs arbitrary: w l) (fastforce split: prod.splits sum.splits)+

lemma run_requests_error:
  "run_requests (traced env) (w, l) qs = ((w', l'), Inl e) \<Longrightarrow>
   \<exists>ps q rest s. qs = ps @ q # rest \<and> e = Service_Failure s \<and>
     l' = l @ map (\<lambda>p. Amqp_Call p (Inr ())) ps @ [Amqp_Call q (Inl s)]"
proof (induction qs arbitrary: w l)
  case Nil
  then show ?case by simp
next
  case (Cons q qs)
  obtain w1 a where call: "amqp_call env w q = (w1, a)" by (meson surj_pair)
  show ?case
  proof (cases a)
    case (Inl s)
    with Cons.prems call have "e = Service_Failure s" "l' = l @ [Amqp_Call q (Inl s)]" by auto
    then show ?thesis
      by (intro exI [of _ "[]"] exI [of _ q] exI [of _ qs] exI [of _ s]) simp
  next
    case (Inr u)
    with Cons.prems call
    have "run_requests (traced env) (w1, l @ [Amqp_Call q (Inr ())]) qs = ((w', l'), Inl e)"
      by simp
    from Cons.IH [OF this] obtain ps p rest s where
      "qs = ps @ p # rest" "e = Service_Failure s"
      "l' = (l @ [Amqp_Call q (Inr ())]) @ map (\<lambda>p. Amqp_Call p (Inr ())) ps @ [Amqp_Call p (Inl s)]"
      by blast
    then show ?thesis
      by (intro exI [of _ "q # ps"] exI [of _ p] exI [of _ rest] exI [of _ s]) simp
  qed
qed

text \<open>
  Requests in an order the broker accepts: a queue is bound only after it and the exchange have
  been declared, and nothing precedes the connection and the channel.
\<close>

fun ordered_requests :: "rstr set \<Rightarrow> rstr set \<Rightarrow> amqp_request list \<Rightarrow> bool" where
  "ordered_requests xs qs [] = True"
| "ordered_requests xs qs (Exchange_Declare x k d # rs) = ordered_requests (insert x xs) qs rs"
| "ordered_requests xs qs (Queue_Declare q d a # rs) = ordered_requests xs (insert q qs) rs"
| "ordered_requests xs qs (Queue_Bind q x k # rs) =
     (q \<in> qs \<and> x \<in> xs \<and> ordered_requests xs qs rs)"
| "ordered_requests xs qs (_ # rs) = ordered_requests xs qs rs"

text \<open>Where a message published on the fanout exchange, or dead-lettered by a queue, goes.\<close>

definition fanout_targets :: "amqp_request list \<Rightarrow> rstr \<Rightarrow> rstr set" where
  "fanout_targets rs x = {q. \<exists>k. Queue_Bind q x k \<in> set rs}"

definition dead_letter_targets :: "amqp_request list \<Rightarrow> rstr \<Rightarrow> rstr set" where
  "dead_letter_targets rs q =
     {d. \<exists>args x k. Queue_Declare q True args \<in> set rs \<and>
          map_of args (lit ''x-dead-letter-exchange'') = Some x \<and>
          map_of args (lit ''x-dead-letter-routing-key'') = Some k \<and>
          Exchange_Declare x Direct True \<in> set rs \<and>
          Queue_Bind d x k \<in> set rs \<and> Queue_Declare d True [] \<in> set rs}"

lemma ordered_queue_requests:
  assumes "x \<in> xs" and "d \<in> xs"
  shows "ordered_requests xs qs (concat (map (queue_requests x d) queues))"
  using assms by (induction queues arbitrary: qs) (auto simp: queue_requests_def)

lemma ordered_connect_requests:
  "ordered_requests {} {} (connect_requests url x queues d)"
  by (simp add: connect_requests_def ordered_queue_requests)

lemma set_connect_requests:
  "set (connect_requests url x queues d) =
   {Open_Connection url, Create_Channel, Confirm_Select, Exchange_Declare x Fanout True,
    Exchange_Declare d Direct True} \<union> (\<Union>p \<in> set queues. set (queue_requests x d p))"
  by (auto simp: connect_requests_def)

lemma fanout_connect_requests:
  "x \<noteq> d \<Longrightarrow> fanout_targets (connect_requests url x queues d) x = fst ` set queues"
  by (force simp: fanout_targets_def set_connect_requests queue_requests_def)

lemma declared_queue_iff:
  "Queue_Declare q True args \<in> set (connect_requests url x queues d) \<longleftrightarrow>
   (\<exists>(a, b) \<in> set queues.
      (q = a \<and> args = [(lit ''x-dead-letter-exchange'', d), (lit ''x-dead-letter-routing-key'', b)]) \<or>
      (q = b \<and> args = []))"
  by (simp add: set_connect_requests queue_requests_def case_prod_beta Bex_def)

lemma bound_queue_iff:
  "Queue_Bind q y k \<in> set (connect_requests url x queues d) \<longleftrightarrow>
   (\<exists>(a, b) \<in> set queues. (q = a \<and> y = x \<and> k = []) \<or> (q = b \<and> y = d \<and> k = b))"
  by (simp add: set_connect_requests queue_requests_def case_prod_beta Bex_def)

lemma declared_exchange_iff:
  "Exchange_Declare y Direct True \<in> set (connect_requests url x queues d) \<longleftrightarrow> y = d"
  by (auto simp: set_connect_requests queue_requests_def)

lemma dead_letter_connect_requests:
  assumes "x \<noteq> d"
  shows "dead_letter_targets (connect_requests url x queues d) q = {dq. (q, dq) \<in> set queues}"
    (is "?targets = _")
proof (intro set_eqI iffI)
  fix t
  assume "t \<in> ?targets"
  then obtain args k where
    "Queue_Declare q True args \<in> set (connect_requests url x queues d)"
    "map_of args (lit ''x-dead-letter-routing-key'') = Some k"
    "Queue_Bind t d k \<in> set (connect_requests url x queues d)"
    by (auto simp: dead_letter_targets_def declared_exchange_iff)
  with assms show "t \<in> {dq. (q, dq) \<in> set queues}"
    by (auto simp: declared_queue_iff bound_queue_iff split: if_splits)
next
  fix t
  assume t: "t \<in> {dq. (q, dq) \<in> set queues}"
  let ?args = "[(lit ''x-dead-letter-exchange'', d), (lit ''x-dead-letter-routing-key'', t)]"
  have "Queue_Declare q True ?args \<in> set (connect_requests url x queues d)"
    "Queue_Declare t True [] \<in> set (connect_requests url x queues d)"
    "Queue_Bind t d t \<in> set (connect_requests url x queues d)"
    using t by (auto simp: declared_queue_iff bound_queue_iff)
  then show "t \<in> ?targets"
    unfolding dead_letter_targets_def mem_Collect_eq declared_exchange_iff
    by (intro exI [of _ ?args] exI [of _ d] exI [of _ t]) simp
qed

end
