(* ===== verification/Receiver.thy ===== *)
theory Receiver
  imports Dedup Producer
begin

text \<open>
  \<open>src/src/receiver.rs\<close>: the HTTP handler of \<open>POST /events\<close>: validation, the duplicate check, the
  queue message and its publication, with the status and body of every way out.
\<close>

section \<open>Answers\<close>

record 'b response =
  rs_status :: nat
  rs_body :: 'b

abbreviation mk_response :: "nat \<Rightarrow> string \<Rightarrow> rstr \<Rightarrow> api_response response" where
  "mk_response code status msg \<equiv>
     \<lparr> rs_status = code, rs_body = \<lparr> ar_status = lit status, ar_message = msg \<rparr> \<rparr>"

text \<open>The en dash of the two messages on lengths.\<close>

definition en_dash :: rchar where
  "en_dash = 8211"

section \<open>Validation\<close>

text \<open>\<open>event.id.bytes().all(...)\<close>: every byte an ASCII letter, a digit, a hyphen or an underscore.\<close>

definition id_byte_ok :: "u8 \<Rightarrow> bool" where
  "id_byte_ok b \<longleftrightarrow> is_alnum_char (unat b) \<or> b = 45 \<or> b = 95"

definition validate_event :: "incoming_event \<Rightarrow> api_response response option" where
  "validate_event event =
     (if ev_id event = [] \<or> byte_len (ev_id event) > 128 then
        Some (mk_response 422 ''error''
          (lit ''id must be 1'' @ [en_dash] @ lit ''128 characters''))
      else if \<not> (\<forall>b \<in> set (str_bytes (ev_id event)). id_byte_ok b) then
        Some (mk_response 422 ''error''
          (lit ''id contains invalid characters (allowed: a-z A-Z 0-9 - _)''))
      else if ev_event_type event = [] \<or> byte_len (ev_event_type event) > 64 then
        Some (mk_response 422 ''error''
          (lit ''event_type must be 1'' @ [en_dash] @ lit ''64 characters''))
      else None)"

section \<open>The handler\<close>

definition event_message :: "incoming_event \<Rightarrow> i64 \<Rightarrow> queue_message" where
  "event_message event now_ms =
     \<lparr> qm_id = ev_id event,
       qm_event_type = ev_event_type event,
       qm_payload = ev_payload event,
       qm_timestamp = (case ev_timestamp event of Some t \<Rightarrow> t | None \<Rightarrow> now_ms),
       qm_received_at = now_ms,
       qm_table_key = None \<rparr>"

definition handle_event ::
  "'w env \<Rightarrow> app_state \<Rightarrow> 'w \<Rightarrow> incoming_event \<Rightarrow> 'w \<times> api_response response rust" where
  "handle_event env st w event =
     (case validate_event event of
        Some err \<Rightarrow> (w, Ret err)
      | None \<Rightarrow>
          (case is_new env (st_ttl_secs st) w (ev_id event) of
             (w1, Inl e) \<Rightarrow>
               (w1, Ret (mk_response 503 ''error'' (lit ''dedup service unavailable'')))
           | (w1, Inr is_new_event) \<Rightarrow>
               if \<not> is_new_event then
                 (w1, Ret (mk_response 409 ''duplicate''
                   (lit ''event '' @ ev_id event @ lit '' already processed'')))
               else
                 (case clock_ms env w1 of
                    None \<Rightarrow> (w1, Panic)
                  | Some now \<Rightarrow>
                      (case publish env (st_exchange st) w1 (event_message event (millis_i64 now)) of
                         (w2, Inl e) \<Rightarrow>
                           (w2, Ret (mk_response 500 ''error'' (lit ''failed to enqueue event'')))
                       | (w2, Inr _) \<Rightarrow>
                           (w2, Ret (mk_response 202 ''accepted''
                             (lit ''event '' @ ev_id event @ lit '' queued'')))))))"

definition health_check :: "json response" where
  "health_check = \<lparr> rs_status = 200, rs_body = str_object [(''status'', lit ''ok'')] \<rparr>"

section \<open>Lemmas\<close>

definition valid_id_char :: "rchar \<Rightarrow> bool" where
  "valid_id_char c \<longleftrightarrow> is_alnum_char c \<or> c = 45 \<or> c = 95"

text \<open>Bytes of a character beyond ASCII are all 128 or more, so the byte check is one on characters.\<close>

lemma id_byte_ok_ascii: "id_byte_ok b \<Longrightarrow> unat b < 128"
  by (auto simp: id_byte_ok_def is_alnum_char_def is_digit_char_def)

lemma id_byte_ok_char: "c < 128 \<Longrightarrow> id_byte_ok (word_of_nat c) \<longleftrightarrow> valid_id_char c"
  by (simp add: id_byte_ok_def valid_id_char_def u8_eq_iff)

lemma unat_u8_high: "128 \<le> n \<Longrightarrow> n < 256 \<Longrightarrow> 128 \<le> unat (word_of_nat n :: u8)"
  by (simp only: unat_u8_of_nat)

lemma encode_char_high:
  assumes "128 \<le> c" and "c < 1114112" and "b \<in> set (encode_char c)"
  shows "128 \<le> unat b"
proof -
  have "\<exists>n. b = word_of_nat n \<and> 128 \<le> n \<and> n < 256"
  proof -
    have "c < 2048 \<Longrightarrow> 192 + c div 64 < 256" "c < 65536 \<Longrightarrow> 224 + c div 4096 < 256"
      "240 + c div 262144 < 256" "128 + k mod 64 < 256" for k :: nat
      using assms(2) by linarith+
    with assms(1,3) show ?thesis
      unfolding encode_char_def
      by (auto simp del: of_nat_add split: if_splits intro: exI [of _ "128 + c mod 64"]
          exI [of _ "128 + c div 64 mod 64"] exI [of _ "128 + c div 4096 mod 64"]
          exI [of _ "192 + c div 64"] exI [of _ "224 + c div 4096"] exI [of _ "240 + c div 262144"])
  qed
  then show ?thesis using unat_u8_high by blast
qed

lemma encode_char_nonempty: "encode_char c \<noteq> []"
  by (metis length_encode_char length_greater_0_conv utf8_len_pos)

lemma id_bytes_chars:
  assumes "\<forall>c \<in> set s. c < 1114112"
  shows "(\<forall>b \<in> set (str_bytes s). id_byte_ok b) \<longleftrightarrow> (\<forall>c \<in> set s. valid_id_char c)"
  using assms
proof (induction s)
  case Nil
  then show ?case by (simp add: str_bytes_def)
next
  case (Cons c s)
  have "(\<forall>b \<in> set (encode_char c). id_byte_ok b) \<longleftrightarrow> valid_id_char c"
  proof (cases "c < 128")
    case True
    then show ?thesis by (simp add: encode_char_def id_byte_ok_char)
  next
    case False
    then obtain b where b: "b \<in> set (encode_char c)" "128 \<le> unat b"
      using encode_char_nonempty [of c] encode_char_high [of c] Cons.prems
      by (metis hd_in_set list.set_intros(1) not_less)
    then have "\<not> id_byte_ok b" using id_byte_ok_ascii by fastforce
    moreover have "\<not> valid_id_char c"
      using False by (auto simp: valid_id_char_def is_alnum_char_def is_digit_char_def)
    ultimately show ?thesis using b by blast
  qed
  with Cons show ?case by (auto simp: str_bytes_def)
qed

lemma validate_event_None:
  "validate_event e = None \<longleftrightarrow>
     ev_id e \<noteq> [] \<and> byte_len (ev_id e) \<le> 128 \<and>
     (\<forall>b \<in> set (str_bytes (ev_id e)). id_byte_ok b) \<and>
     ev_event_type e \<noteq> [] \<and> byte_len (ev_event_type e) \<le> 64"
  by (auto simp: validate_event_def)

lemma validate_event_error:
  "validate_event e = Some r \<Longrightarrow> rs_status r = 422 \<and> ar_status (rs_body r) = lit ''error''"
  by (auto simp: validate_event_def split: if_splits)

text \<open>An event that passes validation never fails the length check of the duplicate filter.\<close>

lemma validated_is_new:
  "validate_event e = None \<Longrightarrow>
   is_new env ttl w (ev_id e) =
     (case redis_query env w (set_nx_args ttl (dedup_key (ev_id e))) of
        (w', Inl err) \<Rightarrow> (w', Inl (Service_Failure err))
      | (w', Inr r) \<Rightarrow> (w', Inr (case r of Some _ \<Rightarrow> True | None \<Rightarrow> False)))"
  by (simp add: validate_event_None is_new_query)

end
