(* ===== verification/Framing.thy ===== *)
theory Framing
  imports Prelude "HOL-Library.Sublist"
begin

text \<open>
  A stream of bytes pull into frames by a buffer and an extraction function, as an interface: what
  the connection loop relies on, and its consequence, that the frames found do not depend on how
  the stream is split into reads.
\<close>

section \<open>Draining a buffer\<close>

text \<open>
  \<open>while let Some(frame) = extract_frame(&mut buf)\<close>, at most \<open>n\<close> times. An extraction that removes at
  least one byte makes \<open>n\<close> the length of the buffer enough (\<open>take_frames_enough\<close> below).
\<close>

fun take_frames :: "(bytes \<Rightarrow> 'f option \<times> bytes) \<Rightarrow> nat \<Rightarrow> bytes \<Rightarrow> 'f list \<times> bytes" where
  "take_frames pull n b =
     (case pull b of
        (None, b') \<Rightarrow> ([], b')
      | (Some f, b') \<Rightarrow>
          (case n of
             0 \<Rightarrow> ([f], b')
           | Suc m \<Rightarrow> (case take_frames pull m b' of (fs, r) \<Rightarrow> (f # fs, r))))"

declare take_frames.simps [simp del]

definition feed ::
  "(bytes \<Rightarrow> 'f option \<times> bytes) \<Rightarrow> bytes \<times> 'f list \<Rightarrow> bytes \<Rightarrow> bytes \<times> 'f list" where
  "feed pull st chunk =
     (case st of (b, acc) \<Rightarrow>
       (case take_frames pull (length (b @ chunk)) (b @ chunk) of
          (fs, r) \<Rightarrow> (r, acc @ fs)))"

lemma take_frames_None: "pull b = (None, b') \<Longrightarrow> take_frames pull n b = ([], b')"
  by (subst take_frames.simps) simp

lemma take_frames_Some:
  "pull b = (Some f, b') \<Longrightarrow>
   take_frames pull (Suc n) b = (case take_frames pull n b' of (fs, r) \<Rightarrow> (f # fs, r))"
  by (subst take_frames.simps) simp

section \<open>The contract\<close>

locale frame_source =
  fixes pull :: "bytes \<Rightarrow> 'f option \<times> bytes"
    and wire :: "'f \<Rightarrow> bytes"
    and valid :: "'f \<Rightarrow> bool"
  assumes progress: "pull b = (Some f, b') \<Longrightarrow> length b' < length b"
    and whole: "valid f \<Longrightarrow> pull (wire f @ rest) = (Some f, rest)"
    and part: "valid f \<Longrightarrow> strict_prefix p (wire f) \<Longrightarrow> pull p = (None, p)"
    and none_left: "pull [] = (None, [])"
begin

lemma take_frames_enough:
  "length b \<le> n \<Longrightarrow> length b \<le> m \<Longrightarrow> take_frames pull n b = take_frames pull m b"
proof (induction n arbitrary: b m)
  case 0
  then show ?case by (simp add: none_left take_frames_None [of pull "[]"])
next
  case (Suc n)
  obtain o1 b' where e: "pull b = (o1, b')" by force
  show ?case
  proof (cases o1)
    case None
    with e show ?thesis by (simp add: take_frames_None)
  next
    case (Some f)
    with e have less: "length b' < length b" using progress by blast
    with Suc.prems obtain k where k: "m = Suc k" "length b' \<le> k" by (cases m) auto
    from Suc.IH [of b' k] less Suc.prems k Some e show ?thesis
      by (simp add: take_frames_Some)
  qed
qed

text \<open>A stream: whole frames, then the beginning of one more.\<close>

definition stream :: "'f list \<Rightarrow> bytes \<Rightarrow> bytes" where
  "stream fs p = concat (map wire fs) @ p"

definition tail_ok :: "bytes \<Rightarrow> bool" where
  "tail_ok p \<longleftrightarrow> p = [] \<or> (\<exists>f. valid f \<and> strict_prefix p (wire f))"

lemma tail_none: "tail_ok (b @ rest) \<Longrightarrow> pull b = (None, b)"
proof -
  assume "tail_ok (b @ rest)"
  then consider "b = []" | f where "valid f" "strict_prefix (b @ rest) (wire f)"
    by (auto simp: tail_ok_def)
  then show ?thesis
  proof cases
    case 1
    then show ?thesis by (simp add: none_left)
  next
    case 2
    then have "strict_prefix b (wire f)"
      by (metis append_prefixD prefix_order.less_le_trans prefix_order.le_less_trans prefixI)
    with 2 show ?thesis by (simp add: part)
  qed
qed

lemma append_cases:
  assumes "b @ rest = w @ r"
  obtains (longer) b' where "b = w @ b'" "b' @ rest = r"
    | (shorter) "strict_prefix b w"
proof -
  from assms consider us where "b = w @ us" "us @ rest = r" | us where "b @ us = w" "rest = us @ r"
    by (auto simp: append_eq_append_conv2)
  then show thesis
  proof cases
    case (1 us)
    then show thesis by (rule longer)
  next
    case (2 us)
    show thesis
    proof (cases us)
      case Nil
      with 2 show thesis by (intro longer [of "[]"]) auto
    next
      case (Cons u us')
      with 2 show thesis by (intro shorter) (auto simp: strict_prefix_def)
    qed
  qed
qed

lemma take_frames_stream:
  assumes "b @ rest = stream fs p" and "\<forall>f \<in> set fs. valid f" and "tail_ok p" and "length b \<le> n"
  shows "\<exists>fs1 fs2 r. fs = fs1 @ fs2 \<and> take_frames pull n b = (fs1, r) \<and>
    r @ rest = stream fs2 p \<and> pull r = (None, r)"
  using assms
proof (induction fs arbitrary: b n)
  case Nil
  then have "pull b = (None, b)" by (intro tail_none [of b rest]) (simp add: stream_def)
  with Nil.prems show ?case
    by (intro exI [of _ "[]"] exI [of _ b]) (simp add: take_frames_None)
next
  case (Cons f fs)
  from Cons.prems(1) have "b @ rest = wire f @ stream fs p" by (simp add: stream_def)
  then show ?case
  proof (cases rule: append_cases)
    case (longer b')
    have e: "pull b = (Some f, b')" using longer whole Cons.prems(2) by simp
    then have "length b' < length b" by (rule progress)
    with Cons.prems(4) obtain m where m: "n = Suc m" "length b' \<le> m" by (cases n) auto
    from Cons.IH [OF longer(2) _ Cons.prems(3) m(2)] Cons.prems(2)
    obtain fs1 fs2 r where "fs = fs1 @ fs2" "take_frames pull m b' = (fs1, r)"
      "r @ rest = stream fs2 p" "pull r = (None, r)" by auto
    with e m show ?thesis
      by (intro exI [of _ "f # fs1"] exI [of _ fs2] exI [of _ r]) (simp add: take_frames_Some)
  next
    case shorter
    with Cons.prems(2) have "pull b = (None, b)" by (auto intro: part)
    with Cons.prems show ?thesis
      by (intro exI [of _ "[]"] exI [of _ "f # fs"] exI [of _ b]) (simp add: take_frames_None)
  qed
qed

lemma feed_stream:
  assumes "pull b = (None, b)" and "b @ concat chunks = stream fs p"
    and "\<forall>f \<in> set fs. valid f" and "tail_ok p"
  shows "foldl (feed pull) (b, acc) chunks = (p, acc @ fs)"
  using assms
proof (induction chunks arbitrary: b fs acc)
  case Nil
  show ?case
  proof (cases fs)
    case Nil
    with Nil.prems show ?thesis by (simp add: stream_def)
  next
    case (Cons f fs')
    with Nil.prems have "b = wire f @ stream fs' p" "valid f" by (simp_all add: stream_def)
    with Nil.prems(1) whole [of f "stream fs' p"] show ?thesis by simp
  qed
next
  case (Cons c cs)
  have "(b @ c) @ concat cs = stream fs p" using Cons.prems(2) by simp
  from take_frames_stream [OF this Cons.prems(3,4), of "length (b @ c)"]
  obtain fs1 fs2 r where r: "fs = fs1 @ fs2"
    "take_frames pull (length (b @ c)) (b @ c) = (fs1, r)"
    "r @ concat cs = stream fs2 p" "pull r = (None, r)" by blast
  then have "foldl (feed pull) (r, acc @ fs1) cs = (p, (acc @ fs1) @ fs2)"
    using Cons.prems(3,4) by (intro Cons.IH) auto
  moreover have "feed pull (b, acc) c = (r, acc @ fs1)"
    using r(2) by (simp add: feed_def)
  ultimately show ?case using r(1) by simp
qed

lemma frames_of_chunks:
  assumes "concat chunks = stream fs p" and "\<forall>f \<in> set fs. valid f" and "tail_ok p"
  shows "foldl (feed pull) ([], []) chunks = (p, fs)"
  using feed_stream [OF none_left _ assms(2,3), of chunks "[]"] assms(1) by simp

end

end
