(* ===== verification/Tcp_Listener.thy ===== *)
theory Tcp_Listener
  imports Framing Security Parser Dedup Producer
begin

text \<open>
  \<open>src/src/tcp_listener.rs\<close>: frames are cut from the connection's buffer, each is parsed, checked for
  duplicates and published, and answered; the connection's loop; and the accept loop with its
  address filter and its limits. A connection's reads are a list of events, its writes go through a
  parameter.
\<close>

section \<open>Cutting frames\<close>

definition is_ascii_digit :: "u8 \<Rightarrow> bool" where
  "is_ascii_digit b \<longleftrightarrow> 48 \<le> b \<and> b \<le> 57"

definition FIXED_FRAME_SIZE :: nat where
  "FIXED_FRAME_SIZE = 170"

text \<open>
  The frame found, with whether it had the length header, and the buffer after the call.
\<close>

definition extract_frame :: "nat \<Rightarrow> bytes \<Rightarrow> (bytes \<times> bool) option \<times> bytes" where
  "extract_frame max_frame_bytes buf =
     (if length buf < 4 then (None, buf)
      else if (\<forall>b \<in> set (take 4 buf). is_ascii_digit b) then
        (case parse_unsigned 64 (trim (map unat (take 4 buf))) of
           None \<Rightarrow> (None, buf)
         | Some payload_len \<Rightarrow>
             if payload_len = 0 then (None, drop 4 buf)
             else if payload_len > max_frame_bytes then (None, [])
             else
               let frame_end = 4 + payload_len in
               if length buf < frame_end then (None, buf)
               else (Some (take (frame_end - 4) (drop 4 buf), True), drop frame_end buf))
      else if length buf < FIXED_FRAME_SIZE then (None, buf)
      else if FIXED_FRAME_SIZE > max_frame_bytes then (None, [])
      else (Some (take FIXED_FRAME_SIZE buf, False), drop FIXED_FRAME_SIZE buf))"

section \<open>Answering a frame\<close>

text \<open>\<open>xs[a..b].copy_from_slice(src)\<close> for a range inside \<open>xs\<close>: panics when the lengths differ.\<close>

definition copy_from_slice :: "bytes \<Rightarrow> nat \<Rightarrow> nat \<Rightarrow> bytes \<Rightarrow> bytes rust" where
  "copy_from_slice xs a b src =
     (if length src \<noteq> b - a then Panic else Ret (take a xs @ src @ drop b xs))"

definition response_type :: "rstr \<Rightarrow> rstr" where
  "response_type msg_type =
     (if msg_type = lit ''0100'' then lit ''0110''
      else if msg_type = lit ''0200'' then lit ''0210''
      else msg_type)"

definition build_response :: "bytes \<Rightarrow> rstr \<Rightarrow> bytes rust" where
  "build_response frame msg_type =
     (let resp_type = response_type msg_type in
      bind_rust
        (if length frame \<ge> 12 \<and> resp_type \<noteq> []
         then copy_from_slice frame 8 12 (str_bytes resp_type)
         else Ret frame)
        (\<lambda>resp.
           if length resp \<ge> 26
           then copy_from_slice resp 24 26 (str_bytes (lit ''00''))
           else Ret resp))"

definition process_frame :: "'w env \<Rightarrow> app_state \<Rightarrow> 'w \<Rightarrow> bytes \<Rightarrow> 'w \<times> bytes rust" where
  "process_frame env st w frame =
     (case parse_frame env w frame of
        Inl e \<Rightarrow> (w, build_response frame [])
      | Inr msg \<Rightarrow>
          let msg_type = str_field (qm_payload msg) ''msg_type'' [];
              w' = (case is_new env (st_ttl_secs st) w (qm_id msg) of
                      (w1, Inr True) \<Rightarrow> fst (publish env (st_exchange st) w1 msg)
                    | (w1, Inr False) \<Rightarrow> w1
                    | (w1, Inl e) \<Rightarrow> w1)
          in (w', build_response frame msg_type))"

section \<open>One connection\<close>

datatype io_kind = Connection_Reset | Connection_Aborted | Other_Io

datatype read_event = Read_Bytes bytes | Read_Error io_kind | Read_Timeout

datatype conn_end = Closed_Ok | Closed_Err io_kind | Task_Panicked

record conn =
  buf :: bytes
  total_bytes :: nat
  frame_count :: nat

definition conn_new :: conn where
  "conn_new = \<lparr> buf = [], total_bytes = 0, frame_count = 0 \<rparr>"

type_synonym 'w writer = "'w \<Rightarrow> bytes \<Rightarrow> 'w \<times> (io_kind + unit)"

definition response_bytes :: "bytes \<Rightarrow> bool \<Rightarrow> bytes" where
  "response_bytes response had_llll =
     (if had_llll then str_bytes (pad_dec 4 (length response)) @ response else response)"

text \<open>One turn of the inner loop: the frame is processed and its answer written.\<close>

definition respond ::
  "'w env \<Rightarrow> app_state \<Rightarrow> 'w writer \<Rightarrow> 'w \<Rightarrow> bytes \<times> bool \<Rightarrow> 'w \<times> (conn_end + unit)" where
  "respond env st write w f =
     (case f of (frame, had_llll) \<Rightarrow>
       (case process_frame env st w frame of
          (w1, Panic) \<Rightarrow> (w1, Inl Task_Panicked)
        | (w1, Ret response) \<Rightarrow>
            (case write w1 (response_bytes response had_llll) of
               (w2, Inl k) \<Rightarrow> (w2, Inl (Closed_Err k))
             | (w2, Inr _) \<Rightarrow> (w2, Inr ()))))"

lemma extract_frame_shrinks:
  "extract_frame n b = (Some f, b') \<Longrightarrow> length b' < length b"
  by (auto simp: extract_frame_def Let_def FIXED_FRAME_SIZE_def split: if_splits option.splits)

lemma extract_frame_shrinks_sym:
  "(Some f, b') = extract_frame n b \<Longrightarrow> length b' < length b"
  by (rule extract_frame_shrinks) (rule sym)

function drain_loop ::
  "'w env \<Rightarrow> app_state \<Rightarrow> 'w writer \<Rightarrow> nat \<Rightarrow> 'w \<Rightarrow> conn \<Rightarrow> 'w \<times> (conn_end + conn)" where
  "drain_loop env st write max_frame_bytes w c =
     (case extract_frame max_frame_bytes (buf c) of
        (None, b) \<Rightarrow> (w, Inr (c\<lparr>buf := b\<rparr>))
      | (Some f, b) \<Rightarrow>
          (case respond env st write w f of
             (w', Inl stop) \<Rightarrow> (w', Inl stop)
           | (w', Inr _) \<Rightarrow>
               drain_loop env st write max_frame_bytes w'
                 (c\<lparr>buf := b, frame_count := frame_count c + 1\<rparr>)))"
  by pat_completeness auto
termination
  by (relation "measure (\<lambda>(env, st, write, n, w, c). length (buf c))")
    (auto intro: extract_frame_shrinks_sym)

declare drain_loop.simps [simp del]

definition on_read ::
  "'w env \<Rightarrow> app_state \<Rightarrow> 'w writer \<Rightarrow> nat \<Rightarrow> 'w \<Rightarrow> conn \<Rightarrow> read_event \<Rightarrow> 'w \<times> (conn_end + conn)"
where
  "on_read env st write max_frame_bytes w c ev =
     (case ev of
        Read_Error k \<Rightarrow> (w, Inl (Closed_Err k))
      | Read_Timeout \<Rightarrow> (w, Inl Closed_Ok)
      | Read_Bytes tmp \<Rightarrow>
          if length tmp = 0 then (w, Inl Closed_Ok)
          else drain_loop env st write max_frame_bytes w
                 (c\<lparr>total_bytes := total_bytes c + length tmp, buf := buf c @ tmp\<rparr>))"

fun handle_connection ::
  "'w env \<Rightarrow> app_state \<Rightarrow> 'w writer \<Rightarrow> nat \<Rightarrow> 'w \<Rightarrow> conn \<Rightarrow> read_event list \<Rightarrow>
   'w \<times> (conn_end + conn)" where
  "handle_connection env st write n w c [] = (w, Inr c)"
| "handle_connection env st write n w c (ev # evs) =
     (case on_read env st write n w c ev of
        (w', Inl stop) \<Rightarrow> (w', Inl stop)
      | (w', Inr c') \<Rightarrow> handle_connection env st write n w' c' evs)"

section \<open>The accept loop\<close>

datatype accept_outcome = Blocked_Ip | Refused acquire_error | Accepted

definition accept_conn ::
  "ip_addr list \<Rightarrow> tracker \<Rightarrow> ip_addr \<Rightarrow> accept_outcome \<times> tracker" where
  "accept_conn allowed t peer_ip =
     (if allowed \<noteq> [] \<and> peer_ip \<notin> set allowed then (Blocked_Ip, t)
      else
        (case acquire t peer_ip of
           (Inl reason, t') \<Rightarrow> (Refused reason, t')
         | (Inr guard, t') \<Rightarrow> (Accepted, t')))"

text \<open>
  What the spawned task does with the end of its connection: an alert, when there is a notifier and
  the error is not the peer's reset or abort. A panic ends the task without reaching this code.
\<close>

definition connection_alert :: "conn_end \<Rightarrow> bool \<Rightarrow> bool" where
  "connection_alert e has_notifier =
     (case e of
        Closed_Ok \<Rightarrow> False
      | Closed_Err k \<Rightarrow>
          (case k of
             Connection_Reset \<Rightarrow> False
           | Connection_Aborted \<Rightarrow> False
           | Other_Io \<Rightarrow> has_notifier)
      | Task_Panicked \<Rightarrow> False)"

section \<open>The framing contract\<close>

text \<open>
  A frame a terminal may send: with the length header, one to 9999 bytes within the limit; without
  it, the 170 bytes of the fixed format, not starting with four digits.
\<close>

definition valid_frame :: "nat \<Rightarrow> bytes \<times> bool \<Rightarrow> bool" where
  "valid_frame max_frame_bytes f =
     (case f of (p, had_llll) \<Rightarrow>
       if had_llll then p \<noteq> [] \<and> length p \<le> 9999 \<and> length p \<le> max_frame_bytes
       else length p = FIXED_FRAME_SIZE \<and> FIXED_FRAME_SIZE \<le> max_frame_bytes \<and>
         \<not> (\<forall>b \<in> set (take 4 p). is_ascii_digit b))"

definition wire_frame :: "bytes \<times> bool \<Rightarrow> bytes" where
  "wire_frame f = response_bytes (fst f) (snd f)"

lemma digit_byte: "is_digit_char c \<Longrightarrow> is_ascii_digit (word_of_nat c)"
  by (simp add: is_ascii_digit_def is_digit_char_def word_le_nat_alt)

lemma header_length: "length p \<le> 9999 \<Longrightarrow> length (str_bytes (pad_dec 4 (length p))) = 4"
  using length_pad_dec [of 4 "length p"] by (simp add: ascii_byte_len)

lemma header_digits: "b \<in> set (str_bytes (pad_dec 4 n)) \<Longrightarrow> is_ascii_digit b"
  by (auto simp: str_bytes_ascii intro: digit_byte dest: pad_dec_digits)

lemma header_value:
  "n < 2 ^ 64 \<Longrightarrow> parse_unsigned 64 (trim (map unat (str_bytes (pad_dec 4 n)))) = Some n"
  by (simp add: map_unat_str_bytes trim_digits pad_dec_digits parse_unsigned_pad_dec)

text \<open>What the header decides, once it is in the buffer.\<close>

lemma extract_header:
  assumes "length h \<le> 9999"
  shows "extract_frame n (str_bytes (pad_dec 4 (length h)) @ rest) =
    (if length h = 0 then (None, rest)
     else if length h > n then (None, [])
     else if length rest < length h then (None, str_bytes (pad_dec 4 (length h)) @ rest)
     else (Some (take (length h) rest, True), drop (length h) rest))"
proof -
  let ?h = "str_bytes (pad_dec 4 (length h))"
  have len: "length ?h = 4" using header_length [OF assms] .
  then have "take 4 (?h @ rest) = ?h" "drop 4 (?h @ rest) = rest"
    and more: "drop (4 + k) (?h @ rest) = drop k rest" for k by simp_all
  moreover have "\<forall>b \<in> set ?h. is_ascii_digit b" using header_digits by blast
  moreover have "parse_unsigned 64 (trim (map unat ?h)) = Some (length h)"
    using assms by (intro header_value) simp
  ultimately show ?thesis
    using len unfolding extract_frame_def Let_def by (auto simp: more)
qed

lemma extract_whole:
  assumes "valid_frame n f"
  shows "extract_frame n (wire_frame f @ rest) = (Some f, rest)"
proof (cases f)
  case (Pair p b)
  show ?thesis
  proof (cases b)
    case True
    with assms Pair show ?thesis
      using extract_header [of p n "p @ rest"]
      by (auto simp: valid_frame_def wire_frame_def response_bytes_def)
  next
    case False
    with assms Pair show ?thesis
      by (auto simp: valid_frame_def wire_frame_def response_bytes_def extract_frame_def
          FIXED_FRAME_SIZE_def)
  qed
qed

lemma extract_short: "length b < 4 \<Longrightarrow> extract_frame n b = (None, b)"
  by (simp add: extract_frame_def)

lemma extract_part:
  assumes "valid_frame n f" and "strict_prefix q (wire_frame f)"
  shows "extract_frame n q = (None, q)"
proof (cases "length q < 4")
  case True
  then show ?thesis by (rule extract_short)
next
  case False
  obtain p b where f: "f = (p, b)" by force
  obtain z where z: "wire_frame f = q @ z" "z \<noteq> []"
    using assms(2) by (auto simp: strict_prefix_def prefix_def)
  show ?thesis
  proof (cases b)
    case True
    let ?h = "str_bytes (pad_dec 4 (length p))"
    have p: "p \<noteq> []" "length p \<le> 9999" "length p \<le> n"
      using assms(1) f True by (auto simp: valid_frame_def)
    have hp: "?h @ p = q @ z" using z(1) f True by (simp add: wire_frame_def response_bytes_def)
    have "length ?h \<le> length q" using False header_length [OF p(2)] by simp
    with hp have "q = ?h @ drop (length ?h) q"
      by (metis append_eq_append_conv_if append_take_drop_id)
    with hp obtain q' where q': "q = ?h @ q'" "p = q' @ z"
      by (metis append.assoc same_append_eq)
    then show ?thesis using extract_header [OF p(2), of n q'] p z(2) by auto
  next
    case nb: False
    then have p: "length p = FIXED_FRAME_SIZE" "\<not> (\<forall>b \<in> set (take 4 p). is_ascii_digit b)"
      "p = q @ z"
      using assms(1) f z(1) by (auto simp: valid_frame_def wire_frame_def response_bytes_def)
    moreover have "take 4 p = take 4 q" using p(3) False by simp
    moreover have "length q < FIXED_FRAME_SIZE" using p(1,3) z(2) by (cases z) auto
    ultimately show ?thesis using False by (auto simp: extract_frame_def)
  qed
qed

interpretation llll: frame_source "extract_frame n" wire_frame "valid_frame n" for n
proof unfold_locales
  show "extract_frame n b = (Some f, b') \<Longrightarrow> length b' < length b" for b f b'
    by (rule extract_frame_shrinks)
  show "valid_frame n f \<Longrightarrow> extract_frame n (wire_frame f @ rest) = (Some f, rest)" for f rest
    by (rule extract_whole)
  show "valid_frame n f \<Longrightarrow> strict_prefix p (wire_frame f) \<Longrightarrow> extract_frame n p = (None, p)" for f p
    by (rule extract_part)
  show "extract_frame n [] = (None, [])" by (simp add: extract_short)
qed

section \<open>The loop of a connection serves the frames in order\<close>

text \<open>The specification: each frame in turn is processed and answered, until one ends the task.\<close>

fun serve_frames ::
  "'w env \<Rightarrow> app_state \<Rightarrow> 'w writer \<Rightarrow> 'w \<Rightarrow> (bytes \<times> bool) list \<Rightarrow> 'w \<times> (conn_end + unit)" where
  "serve_frames env st write w [] = (w, Inr ())"
| "serve_frames env st write w (f # fs) =
     (case respond env st write w f of
        (w', Inl stop) \<Rightarrow> (w', Inl stop)
      | (w', Inr _) \<Rightarrow> serve_frames env st write w' fs)"

lemma serve_frames_append:
  "serve_frames env st write w (fs @ gs) =
     (case serve_frames env st write w fs of
        (w', Inl stop) \<Rightarrow> (w', Inl stop)
      | (w', Inr _) \<Rightarrow> serve_frames env st write w' gs)"
  by (induction fs arbitrary: w) (auto split: prod.splits sum.splits)

definition after_serving ::
  "conn \<Rightarrow> bytes \<Rightarrow> nat \<Rightarrow> 'w \<times> (conn_end + unit) \<Rightarrow> 'w \<times> (conn_end + conn)" where
  "after_serving c b k r =
     (case r of
        (w', Inl stop) \<Rightarrow> (w', Inl stop)
      | (w', Inr _) \<Rightarrow> (w', Inr (c\<lparr>buf := b, frame_count := frame_count c + k\<rparr>)))"

lemma drain_loop_serves:
  "length (buf c) \<le> m \<Longrightarrow> take_frames (extract_frame n) m (buf c) = (fs, r) \<Longrightarrow>
   drain_loop env st write n w c = after_serving c r (length fs) (serve_frames env st write w fs)"
proof (induction m arbitrary: w c fs r)
  case 0
  then have "extract_frame n (buf c) = (None, buf c)" by (simp add: extract_short)
  with 0 show ?case
    by (subst drain_loop.simps) (auto simp: take_frames_None after_serving_def)
next
  case (Suc m)
  obtain x b where e: "extract_frame n (buf c) = (x, b)" by force
  show ?case
  proof (cases x)
    case None
    with e Suc.prems show ?thesis
      by (subst drain_loop.simps) (auto simp: take_frames_None after_serving_def)
  next
    case (Some f)
    with e have less: "length b < length (buf c)" using extract_frame_shrinks by blast
    obtain fs' where fs: "fs = f # fs'" and t: "take_frames (extract_frame n) m b = (fs', r)"
      using Suc.prems(2) Some e by (auto simp: take_frames_Some split: prod.splits)
    let ?c = "c\<lparr>buf := b, frame_count := frame_count c + 1\<rparr>"
    have IH: "drain_loop env st write n w' ?c =
        after_serving ?c r (length fs') (serve_frames env st write w' fs')" for w'
      using Suc.prems(1) less t by (intro Suc.IH) auto
    show ?thesis
      using e Some fs IH
      by (subst drain_loop.simps)
        (auto simp: after_serving_def split: prod.splits sum.splits)
  qed
qed

lemma handle_connection_serves:
  assumes "extract_frame n (buf c) = (None, buf c)"
    and "buf c @ concat chunks = llll.stream fs p"
    and "\<forall>f \<in> set fs. valid_frame n f" and "llll.tail_ok n p" and "[] \<notin> set chunks"
  shows "handle_connection env st write n w c (map Read_Bytes chunks) =
    after_serving (c\<lparr>total_bytes := total_bytes c + length (concat chunks)\<rparr>) p (length fs)
      (serve_frames env st write w fs)"
  using assms
proof (induction chunks arbitrary: w c fs)
  case Nil
  have "fs = []"
  proof (rule ccontr)
    assume "fs \<noteq> []"
    then obtain f fs' where fs: "fs = f # fs'" by (cases fs) auto
    with Nil.prems have "buf c = wire_frame f @ llll.stream fs' p" "valid_frame n f"
      by (simp_all add: llll.stream_def)
    with Nil.prems(1) extract_whole [of n f "llll.stream fs' p"] show False by simp
  qed
  with Nil.prems show ?case by (simp add: llll.stream_def after_serving_def)
next
  case (Cons ch chs)
  let ?c = "c\<lparr>total_bytes := total_bytes c + length ch, buf := buf c @ ch\<rparr>"
  have "(buf c @ ch) @ concat chs = llll.stream fs p" using Cons.prems(2) by simp
  from llll.take_frames_stream [OF this Cons.prems(3,4), of "length (buf c @ ch)"]
  obtain fs1 fs2 r where fs: "fs = fs1 @ fs2"
    and t: "take_frames (extract_frame n) (length (buf c @ ch)) (buf c @ ch) = (fs1, r)"
    and r: "r @ concat chs = llll.stream fs2 p" "extract_frame n r = (None, r)" by blast
  have step: "on_read env st write n w c (Read_Bytes ch) =
      after_serving ?c r (length fs1) (serve_frames env st write w fs1)"
    using Cons.prems(5) t drain_loop_serves [of ?c "length (buf c @ ch)" n fs1 r]
    by (auto simp: on_read_def)
  have IH: "handle_connection env st write n w'
        (c\<lparr>total_bytes := total_bytes c + length ch, buf := r, frame_count := k\<rparr>)
        (map Read_Bytes chs) =
      after_serving (c\<lparr>total_bytes := total_bytes c + length ch + length (concat chs),
        buf := r, frame_count := k\<rparr>) p (length fs2) (serve_frames env st write w' fs2)" for w' k
    using Cons.IH [of "c\<lparr>total_bytes := total_bytes c + length ch, buf := r, frame_count := k\<rparr>"
        fs2 w'] r Cons.prems(3-5) fs by (cases c) auto
  show ?case
    unfolding fs
    by (simp add: step serve_frames_append)
      (auto simp: after_serving_def IH add.assoc split: prod.splits sum.splits)
qed

end
