(* ===== verification/Telegram.thy ===== *)
theory Telegram
  imports Models
begin

text \<open>
  \<open>src/src/telegram.rs\<close>: an alert is one POST to the bot API, and its failure is only logged. The
  HTTP client is a parameter over the world.
\<close>

record notifier =
  bot_token :: rstr
  chat_id :: rstr

type_synonym 'w http_post = "'w \<Rightarrow> rstr \<Rightarrow> json \<Rightarrow> 'w \<times> (rstr + unit)"

definition telegram_url :: "notifier \<Rightarrow> rstr" where
  "telegram_url n = lit ''https://api.telegram.org/bot'' @ bot_token n @ lit ''/sendMessage''"

definition telegram_body :: "notifier \<Rightarrow> rstr \<Rightarrow> json" where
  "telegram_body n message =
     str_object [(''chat_id'', chat_id n), (''text'', message), (''parse_mode'', lit ''HTML'')]"

definition notify :: "'w http_post \<Rightarrow> notifier \<Rightarrow> 'w \<Rightarrow> rstr \<Rightarrow> 'w" where
  "notify post n w message =
     (case post w (telegram_url n) (telegram_body n message) of
        (w', Inl e) \<Rightarrow> w'
      | (w', Inr _) \<Rightarrow> w')"

text \<open>\<open>notifier\<close> is optional wherever it is used; without one nothing is sent.\<close>

definition alert :: "'w http_post \<Rightarrow> notifier option \<Rightarrow> 'w \<Rightarrow> rstr \<Rightarrow> 'w" where
  "alert post n w message = (case n of Some b \<Rightarrow> notify post b w message | None \<Rightarrow> w)"

text \<open>The binaries build one when both settings are there.\<close>

definition notifier_of :: "rstr option \<Rightarrow> rstr option \<Rightarrow> notifier option" where
  "notifier_of token chat =
     (case (token, chat) of
        (Some t, Some c) \<Rightarrow> Some \<lparr> bot_token = t, chat_id = c \<rparr>
      | _ \<Rightarrow> None)"

lemma notify_fst: "notify post n w m = fst (post w (telegram_url n) (telegram_body n m))"
  by (simp add: notify_def split: prod.split sum.split)

end
