(* ===== verification/Startup.thy ===== *)
theory Startup
  imports Config Receiver Tcp_Listener Telegram
begin

text \<open>
  \<open>src/src/main.rs\<close> and the two binaries of the consumers: which queues the receiver declares, when
  there is a notifier, the HTTP application with its layers in the order a request passes them, and
  the accept loop with its filter and limits over a run of connections. \<open>axum\<close>'s extractor and the
  rate limiter are parameters.
\<close>

section \<open>Queues and the notifier\<close>

definition queues_of :: "config \<Rightarrow> (rstr \<times> rstr) list" where
  "queues_of cfg =
     (if postgres_url cfg \<noteq> None
      then [(mysql_queue cfg, mysql_dlq_queue cfg), (postgres_queue cfg, postgres_dlq_queue cfg)]
      else [(mysql_queue cfg, mysql_dlq_queue cfg)])"

definition startup_connect :: "'w env \<Rightarrow> config \<Rightarrow> 'w \<Rightarrow> 'w \<times> (app_error + rstr)" where
  "startup_connect env cfg w =
     connect env w (rabbitmq_url cfg) (exchange_name cfg) (queues_of cfg) (dlq_exchange cfg)"

definition config_notifier :: "config \<Rightarrow> notifier option" where
  "config_notifier cfg = notifier_of (telegram_bot_token cfg) (telegram_chat_id cfg)"

text \<open>The PostgreSQL consumer refuses to start without a URL (\<open>expect\<close>).\<close>

definition postgres_consumer_url :: "config \<Rightarrow> rstr rust" where
  "postgres_consumer_url cfg = (case postgres_url cfg of Some u \<Rightarrow> Ret u | None \<Rightarrow> Panic)"

section \<open>The HTTP application\<close>

datatype http_method = Get | Head | Post | Other_Method

record http_request =
  rq_peer :: ip_addr
  rq_method :: http_method
  rq_path :: rstr
  rq_api_key :: "bytes option"
  rq_body :: bytes

datatype http_reply = Plain nat rstr | Event_Reply "api_response response" | Health_Reply "json response"

definition reply_status :: "http_reply \<Rightarrow> nat" where
  "reply_status r =
     (case r of Plain n _ \<Rightarrow> n | Event_Reply a \<Rightarrow> rs_status a | Health_Reply h \<Rightarrow> rs_status h)"

text \<open>
  The parameters: \<open>check_key\<close> of the rate limiter over its state \<open>'g\<close>, \<open>to_str\<close> of a header value, and
  the JSON extractor under the body limit, which gives the event or its own rejection.
\<close>

record 'g http_libs =
  lib_check_key :: "'g \<Rightarrow> ip_addr \<Rightarrow> bool \<times> 'g"
  lib_to_str :: "bytes \<Rightarrow> rstr option"
  lib_extract :: "nat \<Rightarrow> bytes \<Rightarrow> http_reply + incoming_event"

text \<open>The routes, below the rate limit: the key is checked on \<open>/events\<close> before anything else.\<close>

definition http_routes ::
  "'w env \<Rightarrow> 'g http_libs \<Rightarrow> config \<Rightarrow> app_state \<Rightarrow> 'w \<Rightarrow> http_request \<Rightarrow> 'w \<times> http_reply rust" where
  "http_routes env libs cfg st w rq =
     (if rq_path rq = lit ''/events'' then
        api_key_middleware (lib_to_str libs) (w, Ret (Plain 401 (lit ''unauthorized''))) (api_key cfg)
          (rq_api_key rq)
          (\<lambda>_. if rq_method rq = Post then
                 (case lib_extract libs (http_max_body_bytes cfg) (rq_body rq) of
                    Inl rejection \<Rightarrow> (w, Ret rejection)
                  | Inr event \<Rightarrow>
                      (case handle_event env st w event of
                         (w', r) \<Rightarrow> (w', bind_rust r (\<lambda>a. Ret (Event_Reply a)))))
               else (w, Ret (Plain 405 [])))
      else if rq_path rq = lit ''/health'' then
        (w, Ret (if rq_method rq = Get \<or> rq_method rq = Head then Health_Reply health_check
                 else Plain 405 []))
      else (w, Ret (Plain 404 [])))"

definition http_app ::
  "'w env \<Rightarrow> 'g http_libs \<Rightarrow> config \<Rightarrow> app_state \<Rightarrow> 'g \<Rightarrow> 'w \<Rightarrow> http_request \<Rightarrow>
   'g \<times> 'w \<times> http_reply rust" where
  "http_app env libs cfg st g w rq =
     rate_limit_middleware (lib_check_key libs) (w, Ret (Plain 429 (lit ''rate limit exceeded''))) g
       (Some (rq_peer rq)) (\<lambda>g'. (g', http_routes env libs cfg st w rq))"

text \<open>The quota of the rate limiter, which panics at zero.\<close>

definition http_start :: "config \<Rightarrow> rate_quota rust" where
  "http_start cfg = new_rate_limiter (http_rate_per_second cfg) (http_rate_burst cfg)"

section \<open>The accept loop\<close>

definition listener_start :: "config \<Rightarrow> tracker" where
  "listener_start cfg = tracker_new (tcp_max_connections cfg) (tcp_max_conn_per_ip cfg)"

definition accept_admit :: "ip_addr list \<Rightarrow> tracker \<Rightarrow> ip_addr \<Rightarrow> bool \<times> tracker" where
  "accept_admit allowed t ip =
     (case accept_conn allowed t ip of (o1, t') \<Rightarrow> (o1 = Accepted, t'))"

lemma accept_admit_cases:
  "accept_admit allowed t ip =
     (if allowed \<noteq> [] \<and> ip \<notin> set allowed then (False, t) else admit t ip)"
  by (auto simp: accept_admit_def accept_conn_def admit_def split: prod.splits sum.splits)

text \<open>The filter before the tracker keeps the tracker's contract.\<close>

interpretation accept_limiter: conn_limiter "accept_admit allowed" release total ip_count
  "\<lambda>t. (max_total t, max_per_ip t)" tracker_inv for allowed
proof unfold_locales
  fix t t' :: tracker and ip :: ip_addr
  show "tracker_inv t \<Longrightarrow> tracker_inv (snd (accept_admit allowed t ip))"
    by (simp add: accept_admit_cases tracker_limiter.admit_inv)
  show "(max_total (snd (accept_admit allowed t ip)), max_per_ip (snd (accept_admit allowed t ip))) =
      (max_total t, max_per_ip t)"
    using tracker_limiter.admit_limits [of t ip] by (simp add: accept_admit_cases)
  show "tracker_inv t \<Longrightarrow> accept_admit allowed t ip = (True, t') \<Longrightarrow>
      total t' = Suc (total t) \<and> ip_count t' = (ip_count t)(ip := Suc (ip_count t ip))"
    using tracker_limiter.admit_yes [of t ip t'] by (auto simp: accept_admit_cases split: if_splits)
  show "tracker_inv t \<Longrightarrow> accept_admit allowed t ip = (False, t') \<Longrightarrow>
      total t' = total t \<and> ip_count t' = ip_count t"
    using tracker_limiter.admit_no [of t ip t'] by (auto simp: accept_admit_cases split: if_splits)
  show "tracker_inv t \<Longrightarrow> 0 < ip_count t ip \<Longrightarrow> 0 < total t \<Longrightarrow> tracker_inv (release t ip)"
    by (rule tracker_limiter.rel_inv)
  show "(max_total (release t ip), max_per_ip (release t ip)) = (max_total t, max_per_ip t)"
    by (rule tracker_limiter.rel_limits)
  show "tracker_inv t \<Longrightarrow> 0 < ip_count t ip \<Longrightarrow> 0 < total t \<Longrightarrow>
      total (release t ip) = total t - 1 \<and>
      ip_count (release t ip) = (ip_count t)(ip := ip_count t ip - 1)"
    by (rule tracker_limiter.rel_counts)
  show "tracker_inv t \<Longrightarrow> total t \<le> fst (max_total t, max_per_ip t) \<and>
      ip_count t ip \<le> snd (max_total t, max_per_ip t)"
    by (rule tracker_limiter.within_limits)
qed

end
