(* ===== verification/Consumer_Core.thy ===== *)
theory Consumer_Core
  imports Telegram
begin

text \<open>
  What the two consumers (\<open>src/src/consumer/mysql.rs\<close>, \<open>src/src/consumer/postgres.rs\<close>) share: the
  deliveries and what settles them, the services they call as a record of functions, the start of
  \<open>run\<close> up to its loop, the loop over a list of events, and the contract of a consumer as two
  locales: every delivery is settled once or still pending, and what the acknowledged deliveries
  weigh is what the database was given.
\<close>

section \<open>Deliveries and services\<close>

record delivery =
  dl_tag :: nat
  dl_data :: bytes

text \<open>\<open>ack\<close>, or \<open>nack\<close> with \<open>requeue\<close> and \<open>multiple\<close> false, which dead-letters the message.\<close>

datatype verdict = Ack | Nack_Drop

datatype db_error = Db_Error "rstr option" | Pool_Timed_Out | Pool_Closed | Other_Db_Error

datatype consumer_request =
    Consumer_Connect rstr
  | Consumer_Channel
  | Consumer_Qos u16
  | Consumer_Start rstr rstr

text \<open>
  \<open>hash_of\<close> is the hash a \<open>HashMap\<close> of the moment orders its keys by; \<open>'q\<close> is the type of the
  statements. An \<open>ack\<close> or \<open>nack\<close> that fails is ignored by the code, so only the new world counts.
\<close>

record ('w, 'k, 'q) sink =
  setup_call :: "'w \<Rightarrow> consumer_request \<Rightarrow> 'w \<times> (service_error + unit)"
  from_slice :: "bytes \<Rightarrow> service_error + queue_message"
  hash_of :: "'w \<Rightarrow> 'k \<Rightarrow> nat"
  execute :: "'w \<Rightarrow> 'q \<Rightarrow> 'w \<times> (db_error + unit)"
  settle :: "'w \<Rightarrow> delivery \<Rightarrow> verdict \<Rightarrow> 'w"
  post_json :: "'w http_post"

definition err_code :: "db_error \<Rightarrow> rstr" where
  "err_code e =
     (case e of
        Db_Error code \<Rightarrow> lit ''DB-'' @ (case code of Some c \<Rightarrow> c | None \<Rightarrow> lit ''?'')
      | Pool_Timed_Out \<Rightarrow> lit ''pool_timeout''
      | Pool_Closed \<Rightarrow> lit ''pool_closed''
      | Other_Db_Error \<Rightarrow> lit ''query_error'')"

fun settle_all :: "('w, 'k, 'q) sink \<Rightarrow> 'w \<Rightarrow> verdict \<Rightarrow> delivery list \<Rightarrow> 'w" where
  "settle_all sk w v [] = w"
| "settle_all sk w v (d # ds) = settle_all sk (settle sk w d v) v ds"

text \<open>A \<open>HashMap\<close> is walked in the order of the hashes of its keys, which is any order.\<close>

definition hash_order :: "('w, 'k, 'q) sink \<Rightarrow> 'w \<Rightarrow> 'k list \<Rightarrow> 'k list" where
  "hash_order sk w ks = sort_key (hash_of sk w) (remdups ks)"

lemma set_hash_order [simp]: "set (hash_order sk w ks) = set ks"
  by (simp add: hash_order_def)

lemma distinct_hash_order [simp]: "distinct (hash_order sk w ks)"
  by (simp add: hash_order_def)

section \<open>Amounts\<close>

definition parse_amount :: "rstr \<Rightarrow> i64" where
  "parse_amount s =
     (let t = trim_start_matches 48 (trim s) in
      if t = [] then 0 else (case parse_i64 t of Some n \<Rightarrow> n | None \<Rightarrow> 0))"

section \<open>The start of \<open>run\<close>\<close>

text \<open>\<open>((batch_size * 2) as u16).max(50)\<close>: the product wraps at 64 bits, the cast keeps 16.\<close>

definition prefetch :: "nat \<Rightarrow> u16" where
  "prefetch batch_size = max (word_of_nat (batch_size * 2 mod 2 ^ 64)) 50"

definition setup_requests :: "rstr \<Rightarrow> rstr \<Rightarrow> rstr \<Rightarrow> nat \<Rightarrow> nat \<Rightarrow> consumer_request list" where
  "setup_requests amqp_url queue tag_prefix nanos batch_size =
     [Consumer_Connect amqp_url, Consumer_Channel, Consumer_Qos (prefetch batch_size),
      Consumer_Start queue (tag_prefix @ dec_str nanos)]"

fun run_setup ::
  "('w, 'k, 'q) sink \<Rightarrow> 'w \<Rightarrow> consumer_request list \<Rightarrow> 'w \<times> (service_error + unit)" where
  "run_setup sk w [] = (w, Inr ())"
| "run_setup sk w (q # qs) =
     (case setup_call sk w q of
        (w', Inl e) \<Rightarrow> (w', Inl e)
      | (w', Inr _) \<Rightarrow> run_setup sk w' qs)"

section \<open>The loop\<close>

text \<open>
  What \<open>select!\<close> takes up next: the end of the stream, an error of the channel, a delivery, or a
  tick of the interval. \<open>Run_Panicked\<close> ends the process: \<open>run\<close> is awaited in \<open>main\<close>.
\<close>

datatype consumer_event = Closed | Channel_Error service_error | Incoming delivery | Tick

datatype consumer_end = Run_Ok | Run_Err service_error | Run_Panicked

fun arrivals :: "consumer_event list \<Rightarrow> delivery list" where
  "arrivals [] = []"
| "arrivals (Incoming d # evs) = d # arrivals evs"
| "arrivals (_ # evs) = arrivals evs"

fun consume ::
  "('w \<Rightarrow> 's \<Rightarrow> consumer_event \<Rightarrow> 'w \<times> (consumer_end + 's)) \<Rightarrow> 'w \<Rightarrow> 's \<Rightarrow> consumer_event list \<Rightarrow>
   'w \<times> (consumer_end + 's)" where
  "consume step w s [] = (w, Inr s)"
| "consume step w s (ev # evs) =
     (case step w s ev of
        (w', Inl e) \<Rightarrow> (w', Inl e)
      | (w', Inr s') \<Rightarrow> consume step w' s' evs)"

text \<open>
  \<open>tokio::time::interval\<close> panics at a period of zero; its first tick completes at once and is awaited
  before the loop.
\<close>

definition run_consumer ::
  "('w, 'k, 'q) sink \<Rightarrow> consumer_request list \<Rightarrow> nat \<Rightarrow>
   ('w \<Rightarrow> 's \<Rightarrow> consumer_event \<Rightarrow> 'w \<times> (consumer_end + 's)) \<Rightarrow> 's \<Rightarrow> 'w \<Rightarrow> consumer_event list \<Rightarrow>
   'w \<times> (consumer_end + 's)" where
  "run_consumer sk requests interval_secs step s0 w evs =
     (case run_setup sk w requests of
        (w1, Inl e) \<Rightarrow> (w1, Inl (Run_Err e))
      | (w1, Inr _) \<Rightarrow>
          if interval_secs = 0 then (w1, Inl Run_Panicked) else consume step w1 s0 evs)"

section \<open>What every call keeps\<close>

text \<open>A predicate on the world that each call keeps is kept by all that is made of them.\<close>

definition sink_keeps :: "('w, 'k, 'q) sink \<Rightarrow> ('w \<Rightarrow> bool) \<Rightarrow> bool" where
  "sink_keeps sk P \<longleftrightarrow>
     (\<forall>w q. P w \<longrightarrow> P (fst (setup_call sk w q))) \<and> (\<forall>w q. P w \<longrightarrow> P (fst (execute sk w q))) \<and>
     (\<forall>w d v. P w \<longrightarrow> P (settle sk w d v)) \<and> (\<forall>w u b. P w \<longrightarrow> P (fst (post_json sk w u b)))"

lemma sink_keepsD:
  assumes "sink_keeps sk P" and "P w"
  shows "setup_call sk w q = (w', a) \<Longrightarrow> P w'" and "execute sk w s = (w', b) \<Longrightarrow> P w'"
    and "P (settle sk w d v)"
  using assms unfolding sink_keeps_def by (metis fst_conv)+

lemma settle_all_keeps: "sink_keeps sk P \<Longrightarrow> P w \<Longrightarrow> P (settle_all sk w v ds)"
proof (induction ds arbitrary: w)
  case (Cons d ds)
  show ?case using Cons.IH [OF Cons.prems(1) sink_keepsD(3) [OF Cons.prems, of d v]] by simp
qed simp

lemma alert_keeps: "sink_keeps sk P \<Longrightarrow> P w \<Longrightarrow> P (alert (post_json sk) nt w m)"
  by (cases nt) (simp_all add: alert_def notify_fst sink_keeps_def)

lemma run_setup_keeps: "sink_keeps sk P \<Longrightarrow> P w \<Longrightarrow> P (fst (run_setup sk w qs))"
proof (induction qs arbitrary: w)
  case (Cons q qs)
  then show ?case
    using sink_keepsD(1) [OF Cons.prems, of q] by (auto split: prod.split sum.split)
qed simp

lemma run_consumer_keeps:
  assumes keeps: "sink_keeps sk P" and step: "\<And>w s ev. P w \<Longrightarrow> P (fst (step w s ev))" and "P w"
  shows "P (fst (run_consumer sk qs secs step s0 w evs))"
proof -
  have consume: "P w \<Longrightarrow> P (fst (consume step w s evs))" for w s
  proof (induction evs arbitrary: w s)
    case (Cons ev evs)
    from step [OF Cons.prems, of s ev] show ?case
      using Cons.IH by (auto split: prod.split sum.split)
  qed simp
  show ?thesis
    using run_setup_keeps [OF keeps assms(3), of qs] consume
    by (auto simp: run_consumer_def split: prod.split sum.split)
qed

section \<open>Recording what a consumer does\<close>

datatype 'q db_call =
    Executed 'q "db_error + unit"
  | Settled delivery verdict
  | Posted rstr json

definition traced_sink :: "('w, 'k, 'q) sink \<Rightarrow> ('w \<times> 'q db_call list, 'k, 'q) sink" where
  "traced_sink sk =
     \<lparr> setup_call = (\<lambda>(w, l) q. (case setup_call sk w q of (w', r) \<Rightarrow> ((w', l), r))),
       from_slice = from_slice sk,
       hash_of = (\<lambda>(w, l). hash_of sk w),
       execute = (\<lambda>(w, l) q. (case execute sk w q of (w', r) \<Rightarrow> ((w', l @ [Executed q r]), r))),
       settle = (\<lambda>(w, l) d v. (settle sk w d v, l @ [Settled d v])),
       post_json = (\<lambda>(w, l) u b. (case post_json sk w u b of (w', r) \<Rightarrow> ((w', l @ [Posted u b]), r))) \<rparr>"

lemma traced_sink_simps [simp]:
  "from_slice (traced_sink sk) = from_slice sk"
  "hash_of (traced_sink sk) (w, l) = hash_of sk w"
  "execute (traced_sink sk) (w, l) q =
     (case execute sk w q of (w', r) \<Rightarrow> ((w', l @ [Executed q r]), r))"
  "settle (traced_sink sk) (w, l) d v = (settle sk w d v, l @ [Settled d v])"
  "post_json (traced_sink sk) (w, l) u b =
     (case post_json sk w u b of (w', r) \<Rightarrow> ((w', l @ [Posted u b]), r))"
  by (simp_all add: traced_sink_def)

fun settled_in :: "'q db_call list \<Rightarrow> delivery list" where
  "settled_in [] = []"
| "settled_in (Settled d v # l) = d # settled_in l"
| "settled_in (_ # l) = settled_in l"

fun acked_in :: "'q db_call list \<Rightarrow> delivery list" where
  "acked_in [] = []"
| "acked_in (Settled d Ack # l) = d # acked_in l"
| "acked_in (_ # l) = acked_in l"

fun stored_in :: "'q db_call list \<Rightarrow> 'q list" where
  "stored_in [] = []"
| "stored_in (Executed q (Inr _) # l) = q # stored_in l"
| "stored_in (_ # l) = stored_in l"

lemma settled_in_append [simp]: "settled_in (l @ m) = settled_in l @ settled_in m"
  by (induction l rule: settled_in.induct) simp_all

lemma acked_in_append [simp]: "acked_in (l @ m) = acked_in l @ acked_in m"
proof (induction l)
  case (Cons c l)
  then show ?case
  proof (cases c)
    case (Settled d v)
    with Cons show ?thesis by (cases v) simp_all
  qed simp_all
qed simp

lemma stored_in_append [simp]: "stored_in (l @ m) = stored_in l @ stored_in m"
proof (induction l)
  case (Cons c l)
  then show ?case
  proof (cases c)
    case (Executed q r)
    with Cons show ?thesis by (cases r) simp_all
  qed simp_all
qed simp

text \<open>Settling appends one entry per delivery, and an alert at most one that settles nothing.\<close>

lemma settle_all_traced [simp]:
  "settle_all (traced_sink sk) (w, l) v ds = (settle_all sk w v ds, l @ map (\<lambda>d. Settled d v) ds)"
  by (induction ds arbitrary: w l) simp_all

lemma settled_entries [simp]:
  "settled_in (map (\<lambda>d. Settled d v) ds) = ds"
  "acked_in (map (\<lambda>d. Settled d v) ds) = (if v = Ack then ds else [])"
  "stored_in (map (\<lambda>d. Settled d v) ds) = []"
  by (induction ds; cases v; simp)+

text \<open>Entries that only send alerts.\<close>

definition quiet :: "'q db_call list \<Rightarrow> bool" where
  "quiet l \<longleftrightarrow> (\<forall>c \<in> set l. \<exists>u b. c = Posted u b)"

lemma quiet_entries [simp]:
  "quiet l \<Longrightarrow> settled_in l = []" "quiet l \<Longrightarrow> acked_in l = []" "quiet l \<Longrightarrow> stored_in l = []"
  by (induction l) (auto simp: quiet_def)

lemma alert_traced:
  "alert (post_json (traced_sink sk)) nt (w, l) m = (w', l') \<Longrightarrow> \<exists>es. l' = l @ es \<and> quiet es"
  by (cases nt) (auto simp: alert_def notify_fst quiet_def split: prod.splits)

section \<open>Which verdict a delivery gets\<close>

definition verdict_of :: "db_error + unit \<Rightarrow> verdict" where
  "verdict_of r = (case r of Inl _ \<Rightarrow> Nack_Drop | Inr _ \<Rightarrow> Ack)"

text \<open>
  A log is justified when each delivery is settled either directly, as \<open>direct\<close> says of its data, or
  after a statement that carries its row, with the verdict of that statement's outcome.
\<close>

fun justified ::
  "('q \<Rightarrow> delivery \<Rightarrow> bool) \<Rightarrow> (delivery \<Rightarrow> verdict \<Rightarrow> bool) \<Rightarrow> ('q \<times> verdict) list \<Rightarrow>
   'q db_call list \<Rightarrow> bool" where
  "justified carries direct seen [] = True"
| "justified carries direct seen (Executed q r # l) =
     justified carries direct ((q, verdict_of r) # seen) l"
| "justified carries direct seen (Settled d v # l) =
     ((direct d v \<or> (\<exists>(q, u) \<in> set seen. u = v \<and> carries q d)) \<and> justified carries direct seen l)"
| "justified carries direct seen (Posted u b # l) = justified carries direct seen l"

lemma justified_mono:
  "justified ca di seen l \<Longrightarrow> set seen \<subseteq> set seen2 \<Longrightarrow> justified ca di seen2 l"
proof (induction l arbitrary: seen seen2)
  case (Cons c l)
  then show ?case
  proof (cases c)
    case (Executed q r)
    with Cons.prems Cons.IH [of "(q, verdict_of r) # seen" "(q, verdict_of r) # seen2"]
    show ?thesis by auto
  next
    case (Settled d v)
    with Cons.prems Cons.IH [of seen seen2] show ?thesis by fastforce
  next
    case (Posted u b)
    with Cons.prems Cons.IH [of seen seen2] show ?thesis by simp
  qed
qed simp

lemma justified_append:
  "justified ca di seen l \<Longrightarrow> justified ca di [] m \<Longrightarrow> justified ca di seen (l @ m)"
proof (induction l arbitrary: seen)
  case Nil
  then show ?case by (auto intro: justified_mono)
next
  case (Cons c l)
  then show ?case by (cases c) auto
qed

lemma justified_quiet: "quiet l \<Longrightarrow> justified ca di seen l"
  by (induction l) (auto simp: quiet_def)

lemma justified_quiet_append:
  "quiet l \<Longrightarrow> justified ca di seen (l @ m) = justified ca di seen m"
  by (induction l) (auto simp: quiet_def)

lemma justified_settled:
  "(q, v) \<in> set seen \<Longrightarrow> (\<And>d. d \<in> set ds \<Longrightarrow> carries q d) \<Longrightarrow>
   justified carries di seen (map (\<lambda>d. Settled d v) ds)"
  by (induction ds) auto

text \<open>A recorded run starts its loop with what had been recorded, or never starts it.\<close>

lemma run_setup_traced:
  "run_setup (traced_sink sk) (w, l) qs = (wl, r) \<Longrightarrow> snd wl = l"
proof (induction qs arbitrary: w)
  case (Cons q qs)
  then show ?case
    by (auto simp: traced_sink_def split: prod.splits sum.splits)
qed auto

lemma run_consumer_traced:
  assumes "run_consumer (traced_sink sk) qs secs step s0 (w, l) evs = (wl, r)"
  shows "(\<exists>w1. consume step (w1, l) s0 evs = (wl, r)) \<or> (snd wl = l \<and> (\<exists>e. r = Inl e))"
proof -
  obtain w1 l1 a where st: "run_setup (traced_sink sk) (w, l) qs = ((w1, l1), a)"
    by (metis surj_pair)
  from run_setup_traced [OF this] have "l1 = l" by simp
  with assms st show ?thesis by (auto simp: run_consumer_def split: sum.splits if_splits)
qed

lemma run_consumer_cases:
  obtains (started) w1 where "run_consumer (traced_sink sk) qs secs step s0 wl evs =
      consume step (w1, snd wl) s0 evs"
  | (failed) "snd (fst (run_consumer (traced_sink sk) qs secs step s0 wl evs)) = snd wl"
proof -
  obtain w l w' l' r where run: "wl = (w, l)"
    "run_consumer (traced_sink sk) qs secs step s0 (w, l) evs = ((w', l'), r)" by (metis surj_pair)
  from run_consumer_traced [OF run(2)] show thesis
  proof
    assume "\<exists>w1. consume step (w1, l) s0 evs = ((w', l'), r)"
    with started run show thesis by (metis snd_conv)
  qed (use failed run in simp)
qed

section \<open>The contract\<close>

text \<open>
  A step of a consumer with batches of \<open>n\<close>: a delivery that arrives is settled or joins the pending
  ones; fewer than \<open>n\<close> (and at least one) are pending between steps; a tick leaves none; and a step
  that ends the loop settles nothing that was not pending or arriving.
\<close>

locale batch_consumer =
  fixes step :: "nat \<Rightarrow> 'w \<Rightarrow> 's \<Rightarrow> consumer_event \<Rightarrow> 'w \<times> (consumer_end + 's)"
    and settled :: "'w \<Rightarrow> delivery list"
    and pending :: "'s \<Rightarrow> delivery list"
    and ok :: "'s \<Rightarrow> bool"
  assumes step_ok: "ok s \<Longrightarrow> step n w s ev = (w', Inr s') \<Longrightarrow> ok s'"
    and step_accounts: "ok s \<Longrightarrow> step n w s ev = (w', Inr s') \<Longrightarrow>
        mset (settled w') + mset (pending s') =
        mset (settled w) + mset (pending s) + mset (arrivals [ev])"
    and step_stops: "ok s \<Longrightarrow> step n w s ev = (w', Inl e) \<Longrightarrow>
        mset (settled w') \<subseteq># mset (settled w) + mset (pending s) + mset (arrivals [ev])"
    and step_bound: "ok s \<Longrightarrow> step n w s ev = (w', Inr s') \<Longrightarrow>
        length (pending s) < max 1 n \<Longrightarrow> length (pending s') < max 1 n"
    and step_tick: "ok s \<Longrightarrow> step n w s Tick = (w', Inr s') \<Longrightarrow> pending s' = []"
begin

lemma run_accounts:
  "ok s \<Longrightarrow> consume (step n) w s evs = (w', Inr s') \<Longrightarrow>
   ok s' \<and> mset (settled w') + mset (pending s') =
     mset (settled w) + mset (pending s) + mset (arrivals evs)"
proof (induction evs arbitrary: w s)
  case Nil
  then show ?case by simp
next
  case (Cons ev evs)
  obtain w1 r where st: "step n w s ev = (w1, r)" by force
  then obtain s1 where s1: "r = Inr s1" using Cons.prems(2) by (cases r) auto
  have "ok s1" using step_ok Cons.prems(1) st s1 by blast
  then have "ok s' \<and> mset (settled w') + mset (pending s') =
      mset (settled w1) + mset (pending s1) + mset (arrivals evs)"
    using Cons.IH [of s1 w1] Cons.prems(2) st s1 by simp
  moreover have "mset (arrivals (ev # evs)) = mset (arrivals [ev]) + mset (arrivals evs)"
    by (cases ev) auto
  ultimately show ?case
    using step_accounts [OF Cons.prems(1), of n w ev w1 s1] st s1 by (simp add: add.assoc)
qed

lemma run_bound:
  "ok s \<Longrightarrow> consume (step n) w s evs = (w', Inr s') \<Longrightarrow> length (pending s) < max 1 n \<Longrightarrow>
   length (pending s') < max 1 n"
proof (induction evs arbitrary: w s)
  case Nil
  then show ?case by simp
next
  case (Cons ev evs)
  obtain w1 r where st: "step n w s ev = (w1, r)" by force
  then obtain s1 where s1: "r = Inr s1" using Cons.prems(2) by (cases r) auto
  have "ok s1" using step_ok Cons.prems(1) st s1 by blast
  moreover have "length (pending s1) < max 1 n"
    using step_bound Cons.prems(1,3) st s1 by blast
  ultimately show ?case using Cons.IH [of s1 w1] Cons.prems(2) st s1 by simp
qed

lemma run_settles_received:
  "ok s \<Longrightarrow>
   mset (settled (fst (consume (step n) w s evs))) \<subseteq>#
   mset (settled w) + mset (pending s) + mset (arrivals evs)"
proof (induction evs arbitrary: w s)
  case Nil
  then show ?case by (simp add: subset_mset.add_increasing2)
next
  case (Cons ev evs)
  obtain w1 r where st: "step n w s ev = (w1, r)" by force
  have split: "mset (arrivals (ev # evs)) = mset (arrivals [ev]) + mset (arrivals evs)"
    by (cases ev) auto
  show ?case
  proof (cases r)
    case (Inl e)
    with st step_stops [OF Cons.prems, of n w ev w1 e] show ?thesis
      by (simp add: split subset_mset.add_increasing2 flip: add.assoc)
  next
    case (Inr s1)
    have "ok s1" using step_ok Cons.prems st Inr by blast
    with Cons.IH [of s1 w1] step_accounts [OF Cons.prems, of n w ev w1 s1] st Inr
    show ?thesis by (simp add: split add.assoc)
  qed
qed

lemma run_invariant:
  assumes "\<And>w s ev. ok s \<Longrightarrow> P w \<Longrightarrow> P (fst (step n w s ev))"
  shows "ok s \<Longrightarrow> P w \<Longrightarrow> P (fst (consume (step n) w s evs))"
proof (induction evs arbitrary: w s)
  case (Cons ev evs)
  obtain w1 r where st: "step n w s ev = (w1, r)" by force
  have "P w1" using assms [OF Cons.prems, of ev] st by simp
  then show ?case
    using Cons.IH [of _ w1] step_ok [OF Cons.prems(1), of n w ev w1] st by (cases r) auto
qed simp

lemma run_invariant_bounded:
  assumes "\<And>w s ev. ok s \<Longrightarrow> length (pending s) < max 1 n \<Longrightarrow> P w \<Longrightarrow> P (fst (step n w s ev))"
  shows "ok s \<Longrightarrow> length (pending s) < max 1 n \<Longrightarrow> P w \<Longrightarrow> P (fst (consume (step n) w s evs))"
proof (induction evs arbitrary: w s)
  case (Cons ev evs)
  obtain w1 r where st: "step n w s ev = (w1, r)" by force
  have "P w1" using assms [OF Cons.prems, of ev] st by simp
  then show ?case
    using Cons.IH [of _ w1] step_ok [OF Cons.prems(1), of n w ev w1]
      step_bound [OF Cons.prems(1), of n w ev w1] Cons.prems(2) st by (cases r) auto
qed simp

lemma run_settles_once:
  assumes "ok s" and "settled w = []" and "pending s = []" and "distinct (map dl_tag (arrivals evs))"
  shows "distinct (map dl_tag (settled (fst (consume (step n) w s evs))))"
proof -
  have "mset (settled (fst (consume (step n) w s evs))) \<subseteq># mset (arrivals evs)"
    using run_settles_received [OF assms(1), of n w evs] assms(2,3) by simp
  then have "image_mset dl_tag (mset (settled (fst (consume (step n) w s evs)))) \<subseteq>#
      image_mset dl_tag (mset (arrivals evs))"
    by (rule image_mset_subseteq_mono)
  then obtain zs where
    "mset (map dl_tag (settled (fst (consume (step n) w s evs)))) + mset zs =
     mset (map dl_tag (arrivals evs))"
    by (metis ex_mset mset_map subset_mset.add_diff_inverse)
  then have "distinct (map dl_tag (settled (fst (consume (step n) w s evs))) @ zs)"
    using assms(4) by (metis mset_append mset_eq_imp_distinct_iff)
  then show ?thesis by simp
qed

end

text \<open>
  A consumer that also stores: the deliveries a step acknowledges weigh exactly what the statements
  that succeeded in it gave the database.
\<close>

locale storing_consumer = batch_consumer +
  fixes acked :: "'w \<Rightarrow> delivery list"
    and stored :: "'w \<Rightarrow> 'm::comm_monoid_add"
    and weight :: "delivery \<Rightarrow> 'm"
  assumes step_stores: "ok s \<Longrightarrow>
      \<exists>more. acked (fst (step n w s ev)) = acked w @ more \<and>
        stored (fst (step n w s ev)) = stored w + sum_list (map weight more)"
begin

lemma run_stores:
  "ok s \<Longrightarrow> stored w = sum_list (map weight (acked w)) \<Longrightarrow>
   stored (fst (consume (step n) w s evs)) =
     sum_list (map weight (acked (fst (consume (step n) w s evs))))"
proof (induction evs arbitrary: w s)
  case Nil
  then show ?case by simp
next
  case (Cons ev evs)
  obtain w1 r where st: "step n w s ev = (w1, r)" by force
  have w1: "stored w1 = sum_list (map weight (acked w1))"
    using step_stores [OF Cons.prems(1), of n w ev] Cons.prems(2) st by auto
  show ?case
  proof (cases r)
    case (Inl e)
    with st w1 show ?thesis by simp
  next
    case (Inr s1)
    have "ok s1" using step_ok Cons.prems(1) st Inr by blast
    with Cons.IH [of s1 w1] w1 st Inr show ?thesis by simp
  qed
qed

end

end
