(* ===== verification/Consumer_Mysql.thy ===== *)
theory Consumer_Mysql
  imports Consumer_Core
begin

text \<open>
  \<open>src/src/consumer/mysql.rs\<close>: a queue message becomes one row of the table of its business number;
  rows are collected into batches and each batch is inserted with one statement per table. At the
  end the consumer is shown to meet the contracts of \<open>Consumer_Core\<close>.
\<close>

section \<open>From a message to a row\<close>

record kicc_row =
  table :: rstr
  kicc_bid :: rstr
  kicc_tid :: rstr
  kicc_mid :: rstr
  kicc_psn :: rstr
  kicc_nick :: rstr
  kicc_trantype :: rstr
  kicc_cardnumber :: rstr
  kicc_amount :: i64
  kicc_rescode :: rstr
  kicc_trno :: rstr
  kicc_acquirer :: rstr
  kicc_approve :: rstr
  kicc_date :: rstr
  kicc_datetime :: rstr

text \<open>Lengths and slices are in bytes: a slice that cuts a character panics.\<close>

definition format_datetime :: "rstr \<Rightarrow> rstr \<Rightarrow> rstr rust" where
  "format_datetime date time =
     (if byte_len date = 8 \<and> byte_len time = 6 then
        bind_rust (slice date 0 4) (\<lambda>y. bind_rust (slice date 4 6) (\<lambda>mo.
        bind_rust (slice date 6 8) (\<lambda>d. bind_rust (slice time 0 2) (\<lambda>h.
        bind_rust (slice time 2 4) (\<lambda>mi. bind_rust (slice time 4 6) (\<lambda>s.
        Ret (y @ lit ''-'' @ mo @ lit ''-'' @ d @ lit '' '' @
             h @ lit '':'' @ mi @ lit '':'' @ s)))))))
      else Ret [])"

definition resolve_table :: "rstr option \<Rightarrow> rstr option" where
  "resolve_table key =
     (case key of
        None \<Rightarrow> None
      | Some k0 \<Rightarrow>
          let k = trim k0 in
          if k = [] \<or> byte_len k > 20 \<or> \<not> (\<forall>c \<in> set k. is_alnum_char c) then None
          else Some (lit ''kicc_b'' @ k))"

definition to_kicc_row :: "queue_message \<Rightarrow> kicc_row option rust" where
  "to_kicc_row msg =
     (case resolve_table (qm_table_key msg) of
        None \<Rightarrow> Ret None
      | Some tbl \<Rightarrow>
          let p = qm_payload msg;
              approval_date = trim (str_field p ''approval_date'' []);
              approval_time = trim (str_field p ''approval_time'' [])
          in bind_rust (format_datetime approval_date approval_time) (\<lambda>dt.
             Ret (Some
               \<lparr> table = tbl,
                 kicc_bid = (case qm_table_key msg of Some k \<Rightarrow> k | None \<Rightarrow> []),
                 kicc_tid = trim (str_field p ''tran_unique_nbr'' []),
                 kicc_mid = take 8 (trim (str_field p ''merchant_no'' [])),
                 kicc_psn = trim (str_field p ''terminal_no'' []),
                 kicc_nick = trim (str_field p ''issuer_name'' []),
                 kicc_trantype = take 1 (trim (str_field p ''cancel_flag'' [])),
                 kicc_cardnumber = take 10 (trim (str_field p ''card_no'' [])),
                 kicc_amount = parse_amount (str_field p ''amount'' (lit ''0'')),
                 kicc_rescode = trim (str_field p ''response_code'' []),
                 kicc_trno = trim (str_field p ''tran_unique_nbr'' []),
                 kicc_acquirer = trim (str_field p ''acquirer_name'' []),
                 kicc_approve = trim (str_field p ''approval_no'' []),
                 kicc_date = approval_date @ approval_time,
                 kicc_datetime = dt \<rparr>)))"

section \<open>The statement of a group\<close>

datatype bind = Bind_Text rstr | Bind_Int i64

record mysql_insert =
  mi_sql :: rstr
  mi_values :: "bind list list"

definition insert_sql :: "rstr \<Rightarrow> rstr" where
  "insert_sql tbl =
     lit ''INSERT INTO `'' @ tbl @
     lit ''` (kicc_bid, kicc_tid, kicc_mid, kicc_psn, kicc_nick, kicc_trantype, '' @
     lit ''kicc_cardnumber, kicc_amount, kicc_rescode, kicc_trno, kicc_acquirer, '' @
     lit ''kicc_approve, kicc_date, kicc_datetime) ''"

definition row_binds :: "kicc_row \<Rightarrow> bind list" where
  "row_binds r =
     [Bind_Text (kicc_bid r), Bind_Text (kicc_tid r), Bind_Text (kicc_mid r),
      Bind_Text (kicc_psn r), Bind_Text (kicc_nick r), Bind_Text (kicc_trantype r),
      Bind_Text (kicc_cardnumber r), Bind_Int (kicc_amount r), Bind_Text (kicc_rescode r),
      Bind_Text (kicc_trno r), Bind_Text (kicc_acquirer r), Bind_Text (kicc_approve r),
      Bind_Text (kicc_date r), Bind_Text (kicc_datetime r)]"

definition insert_of :: "rstr \<Rightarrow> kicc_row list \<Rightarrow> mysql_insert" where
  "insert_of tbl rows = \<lparr> mi_sql = insert_sql tbl, mi_values = map row_binds rows \<rparr>"

section \<open>A flush\<close>

type_synonym 'w mysql_sink = "('w, rstr, mysql_insert) sink"

record mysql_state =
  my_deliveries :: "delivery list"
  my_rows :: "kicc_row list"

definition mysql_state0 :: mysql_state where
  "mysql_state0 = \<lparr> my_deliveries = [], my_rows = [] \<rparr>"

text \<open>The alerts, with their Korean text as scalar values.\<close>

definition mysql_label :: rstr where
  "mysql_label = lit ''<b>[MySQL '' @ [49548, 48708, 51088] @ lit '']</b>''"

definition mysql_channel_alert :: rstr where
  "mysql_channel_alert =
     [128308, 32] @ mysql_label @
     [32, 52292, 45328, 32, 50724, 47448, 32, 8212, 32, 51116, 49884, 51089, 32, 50696, 51221]"

definition mysql_insert_alert :: "nat \<Rightarrow> rstr \<Rightarrow> rstr \<Rightarrow> rstr" where
  "mysql_insert_alert n tbl code =
     [9888, 65039, 32] @ mysql_label @ [32, 48176, 52824] @ lit '' INSERT '' @
     [49892, 54056, 32, 40] @ dec_str n @ [44148, 44, 32] @ tbl @ [41, 32, 8212, 32] @ code"

text \<open>\<open>groups.entry(table).or_default().push(...)\<close>.\<close>

fun group_push ::
  "(rstr \<Rightarrow> (delivery \<times> kicc_row) list option) \<Rightarrow> (delivery \<times> kicc_row) list \<Rightarrow>
   (rstr \<Rightarrow> (delivery \<times> kicc_row) list option)" where
  "group_push groups [] = groups"
| "group_push groups ((d, r) # pairs) =
     group_push
       (groups(table r \<mapsto> (case groups (table r) of Some g \<Rightarrow> g | None \<Rightarrow> []) @ [(d, r)])) pairs"

definition mysql_groups ::
  "'w mysql_sink \<Rightarrow> 'w \<Rightarrow> (delivery \<times> kicc_row) list \<Rightarrow> (rstr \<times> (delivery \<times> kicc_row) list) list"
where
  "mysql_groups sk w pairs =
     map (\<lambda>t. (t, case group_push Map.empty pairs t of Some g \<Rightarrow> g | None \<Rightarrow> []))
       (hash_order sk w (map (\<lambda>p. table (snd p)) pairs))"

definition flush_group ::
  "'w mysql_sink \<Rightarrow> notifier option \<Rightarrow> 'w \<Rightarrow> rstr \<times> (delivery \<times> kicc_row) list \<Rightarrow> 'w" where
  "flush_group sk nt w g =
     (case g of (tbl, grp) \<Rightarrow>
        let count' = length grp;
            group_deliveries = map fst grp;
            group_rows = map snd grp
        in (case execute sk w (insert_of tbl group_rows) of
              (w1, Inr _) \<Rightarrow> settle_all sk w1 Ack group_deliveries
            | (w1, Inl e) \<Rightarrow>
                settle_all sk (alert (post_json sk) nt w1 (mysql_insert_alert count' tbl (err_code e)))
                  Nack_Drop group_deliveries))"

definition mysql_flush ::
  "'w mysql_sink \<Rightarrow> notifier option \<Rightarrow> 'w \<Rightarrow> mysql_state \<Rightarrow> 'w \<times> mysql_state" where
  "mysql_flush sk nt w s =
     (let pairs = zip (my_deliveries s) (my_rows s)
      in (foldl (flush_group sk nt) w (mysql_groups sk w pairs), mysql_state0))"

section \<open>The loop\<close>

definition mysql_flush_full ::
  "'w mysql_sink \<Rightarrow> notifier option \<Rightarrow> nat \<Rightarrow> 'w \<Rightarrow> mysql_state \<Rightarrow> 'w \<times> mysql_state" where
  "mysql_flush_full sk nt batch_size w s =
     (if length (my_rows s) \<ge> batch_size then mysql_flush sk nt w s else (w, s))"

definition mysql_step ::
  "'w mysql_sink \<Rightarrow> notifier option \<Rightarrow> nat \<Rightarrow> 'w \<Rightarrow> mysql_state \<Rightarrow> consumer_event \<Rightarrow>
   'w \<times> (consumer_end + mysql_state)" where
  "mysql_step sk nt batch_size w s ev =
     (case ev of
        Closed \<Rightarrow> (w, Inl Run_Ok)
      | Channel_Error e \<Rightarrow> (alert (post_json sk) nt w mysql_channel_alert, Inl (Run_Err e))
      | Incoming d \<Rightarrow>
          (case from_slice sk (dl_data d) of
             Inr msg \<Rightarrow>
               (case to_kicc_row msg of
                  Panic \<Rightarrow> (w, Inl Run_Panicked)
                | Ret (Some row) \<Rightarrow>
                    map_prod id Inr (mysql_flush_full sk nt batch_size w
                      (s\<lparr>my_rows := my_rows s @ [row], my_deliveries := my_deliveries s @ [d]\<rparr>))
                | Ret None \<Rightarrow>
                    map_prod id Inr (mysql_flush_full sk nt batch_size (settle sk w d Ack) s))
           | Inl e \<Rightarrow>
               map_prod id Inr (mysql_flush_full sk nt batch_size (settle sk w d Nack_Drop) s))
      | Tick \<Rightarrow>
          if my_rows s \<noteq> [] then map_prod id Inr (mysql_flush sk nt w s) else (w, Inr s))"

definition mysql_run ::
  "'w mysql_sink \<Rightarrow> rstr \<Rightarrow> rstr \<Rightarrow> notifier option \<Rightarrow> nat \<Rightarrow> nat \<Rightarrow> nat \<Rightarrow> 'w \<Rightarrow>
   consumer_event list \<Rightarrow> 'w \<times> (consumer_end + mysql_state)" where
  "mysql_run sk amqp_url queue_name nt batch_size batch_interval_secs nanos w evs =
     run_consumer sk (setup_requests amqp_url queue_name (lit ''mysql-consumer-'') nanos batch_size)
       batch_interval_secs (mysql_step sk nt batch_size) mysql_state0 w evs"

section \<open>Lemmas on a flush\<close>

lemma group_push_map:
  "group_push groups pairs t =
     (case (groups t, filter (\<lambda>p. table (snd p) = t) pairs) of
        (None, []) \<Rightarrow> None
      | (None, g) \<Rightarrow> Some g
      | (Some h, g) \<Rightarrow> Some (h @ g))"
proof (induction pairs arbitrary: groups)
  case (Cons p pairs)
  obtain d r where p: "p = (d, r)" by force
  show ?case
    unfolding p group_push.simps Cons.IH
    by (cases "groups t"; cases "filter (\<lambda>p. table (snd p) = t) pairs") auto
qed (simp split: option.split)

lemma mysql_groups_filter:
  "mysql_groups sk w pairs =
     map (\<lambda>t. (t, filter (\<lambda>p. table (snd p) = t) pairs))
       (hash_order sk w (map (\<lambda>p. table (snd p)) pairs))"
  unfolding mysql_groups_def
  by (intro map_cong refl) (auto simp: group_push_map split: list.split)

lemma mset_mysql_groups: "mset (concat (map snd (mysql_groups sk w pairs))) = mset pairs"
  unfolding mysql_groups_filter map_map comp_def snd_conv
  by (rule mset_concat_map_filter) auto

text \<open>The row of a delivery, when it has one.\<close>

definition row_of :: "('w, 'k, 'q) sink \<Rightarrow> delivery \<Rightarrow> kicc_row option" where
  "row_of sk d =
     (case from_slice sk (dl_data d) of
        Inr m \<Rightarrow> (case to_kicc_row m of Ret (Some r) \<Rightarrow> Some r | _ \<Rightarrow> None)
      | Inl _ \<Rightarrow> None)"

lemma row_of_traced [simp]: "row_of (traced_sink sk) = row_of sk"
  by (simp add: row_of_def fun_eq_iff)

lemma row_of_Some:
  "row_of sk d = Some r \<longleftrightarrow>
     (\<exists>m. from_slice sk (dl_data d) = Inr m \<and> to_kicc_row m = Ret (Some r))"
  by (auto simp: row_of_def split: sum.splits rust.splits option.splits)

definition carries_row :: "('w, 'k, 'q) sink \<Rightarrow> mysql_insert \<Rightarrow> delivery \<Rightarrow> bool" where
  "carries_row sk q d \<longleftrightarrow>
     (case row_of sk d of
        Some r \<Rightarrow> mi_sql q = insert_sql (table r) \<and> row_binds r \<in> set (mi_values q)
      | None \<Rightarrow> False)"

definition settled_unstored :: "('w, 'k, 'q) sink \<Rightarrow> delivery \<Rightarrow> verdict \<Rightarrow> bool" where
  "settled_unstored sk d v \<longleftrightarrow>
     (case from_slice sk (dl_data d) of
        Inl _ \<Rightarrow> v = Nack_Drop
      | Inr m \<Rightarrow> to_kicc_row m = Ret None \<and> v = Ack)"

definition inserted_rows :: "mysql_insert list \<Rightarrow> (rstr \<times> bind list) multiset" where
  "inserted_rows qs = sum_list (map (\<lambda>q. mset (map (Pair (mi_sql q)) (mi_values q))) qs)"

definition row_weight :: "('w, 'k, 'q) sink \<Rightarrow> delivery \<Rightarrow> (rstr \<times> bind list) multiset" where
  "row_weight sk d =
     (case row_of sk d of Some r \<Rightarrow> {#(insert_sql (table r), row_binds r)#} | None \<Rightarrow> {#})"

lemma inserted_rows_append [simp]: "inserted_rows (l @ m) = inserted_rows l + inserted_rows m"
  by (simp add: inserted_rows_def)

lemma flush_group_log:
  assumes "flush_group (traced_sink sk) nt (w, l) (tbl, g) = (w', l')"
  obtains r es where "quiet es"
    "l' = l @ Executed (insert_of tbl (map snd g)) r # es @
       map (\<lambda>d. Settled d (verdict_of r)) (map fst g)"
proof -
  obtain w1 r where ex: "execute sk w (insert_of tbl (map snd g)) = (w1, r)" by force
  show ?thesis
  proof (cases r)
    case (Inr u)
    with assms ex that [of "[]" r] show ?thesis
      by (simp add: flush_group_def verdict_of_def quiet_def)
  next
    case (Inl e)
    let ?l = "l @ [Executed (insert_of tbl (map snd g)) (Inl e)]"
    obtain w2 l2 where al: "alert (post_json (traced_sink sk)) nt (w1, ?l)
        (mysql_insert_alert (length g) tbl (err_code e)) = (w2, l2)" by force
    from alert_traced [OF this] obtain es where "l2 = ?l @ es" "quiet es" by blast
    with assms ex al Inl that [of es r] show ?thesis
      by (simp add: flush_group_def verdict_of_def)
  qed
qed

text \<open>What the groups of a flush add to the log.\<close>

definition groups_ok ::
  "('w, 'k, 'q) sink \<Rightarrow> (rstr \<times> (delivery \<times> kicc_row) list) list \<Rightarrow> bool" where
  "groups_ok sk gs \<longleftrightarrow>
     (\<forall>(t, g) \<in> set gs. \<forall>(d, r) \<in> set g. row_of sk d = Some r \<and> table r = t)"

lemma insert_weight:
  "(\<And>d x. (d, x) \<in> set g \<Longrightarrow> row_of sk d = Some x \<and> table x = t) \<Longrightarrow>
   inserted_rows [insert_of t (map snd g)] = sum_list (map (row_weight sk) (map fst g))"
proof (induction g)
  case Nil
  then show ?case by (simp add: inserted_rows_def insert_of_def)
next
  case (Cons p g)
  obtain d x where p: "p = (d, x)" by force
  then have "row_weight sk d = {#(insert_sql t, row_binds x)#}"
    using Cons.prems [of d x] by (simp add: row_weight_def)
  moreover have "inserted_rows [insert_of t (map snd g)] = sum_list (map (row_weight sk) (map fst g))"
    using Cons.prems by (intro Cons.IH) (meson list.set_intros(2))
  ultimately show ?case using p by (simp add: inserted_rows_def insert_of_def)
qed

definition log_ok :: "('w, 'k, 'q) sink \<Rightarrow> mysql_insert db_call list \<Rightarrow> bool" where
  "log_ok sk es \<longleftrightarrow>
     inserted_rows (stored_in es) = sum_list (map (row_weight sk) (acked_in es)) \<and>
     justified (carries_row sk) (settled_unstored sk) [] es"

lemma log_ok_append: "log_ok sk l \<Longrightarrow> log_ok sk m \<Longrightarrow> log_ok sk (l @ m)"
  by (auto simp: log_ok_def intro: justified_append)

lemma log_ok_quiet: "quiet es \<Longrightarrow> log_ok sk es"
  by (auto simp: log_ok_def inserted_rows_def justified_quiet)

lemma flush_group_ok:
  assumes "flush_group (traced_sink sk) nt (w, l) (t, g) = (w', l')"
    and rows: "\<And>d x. (d, x) \<in> set g \<Longrightarrow> row_of sk d = Some x \<and> table x = t"
  shows "\<exists>es. l' = l @ es \<and> settled_in es = map fst g \<and> log_ok sk es"
proof -
  let ?q = "insert_of t (map snd g)"
  obtain r es where es: "quiet es"
    "l' = l @ Executed ?q r # es @ map (\<lambda>d. Settled d (verdict_of r)) (map fst g)"
    using assms(1) by (rule flush_group_log)
  let ?e = "Executed ?q r # es @ map (\<lambda>d. Settled d (verdict_of r)) (map fst g)"
  have stored: "inserted_rows (stored_in ?e) = sum_list (map (row_weight sk) (acked_in ?e))"
  proof (cases r)
    case (Inl e)
    with es(1) show ?thesis by (simp add: verdict_of_def inserted_rows_def del: map_map)
  next
    case (Inr u)
    then have "stored_in ?e = [?q]" "acked_in ?e = map fst g"
      using es(1) by (simp_all add: verdict_of_def del: map_map)
    then show ?thesis using insert_weight [of g sk t, OF rows] by simp
  qed
  have "carries_row sk ?q d" if "d \<in> set (map fst g)" for d
  proof -
    from that obtain x where "(d, x) \<in> set g" by auto
    with rows show ?thesis by (force simp: carries_row_def insert_of_def)
  qed
  then have "justified (carries_row sk) (settled_unstored sk) [] ?e"
    using es(1) by (auto simp: justified_quiet_append simp del: map_map intro!: justified_settled)
  moreover have "settled_in ?e = map fst g" using es(1) by (simp del: map_map)
  ultimately show ?thesis
    using es(2) stored unfolding log_ok_def by blast
qed

lemma flush_groups_log:
  "foldl (flush_group (traced_sink sk) nt) (w, l) gs = (w', l') \<Longrightarrow> groups_ok sk gs \<Longrightarrow>
   \<exists>es. l' = l @ es \<and> settled_in es = map fst (concat (map snd gs)) \<and> log_ok sk es"
proof (induction gs arbitrary: w l)
  case Nil
  then show ?case by (auto intro: exI [of _ "[]"] simp: log_ok_quiet quiet_def)
next
  case (Cons tg gs)
  obtain t g where tg: "tg = (t, g)" by force
  obtain w1 l1 where st: "flush_group (traced_sink sk) nt (w, l) (t, g) = (w1, l1)" by force
  obtain e1 where e1: "l1 = l @ e1" "settled_in e1 = map fst g" "log_ok sk e1"
    using flush_group_ok [OF st] Cons.prems(2) tg by (fastforce simp: groups_ok_def)
  obtain e2 where "l' = l1 @ e2" "settled_in e2 = map fst (concat (map snd gs))" "log_ok sk e2"
    using Cons.IH [of w1 l1] Cons.prems tg st by (auto simp: groups_ok_def)
  with e1 tg show ?case by (intro exI [of _ "e1 @ e2"]) (simp add: log_ok_append)
qed

text \<open>A state whose rows are those of its deliveries.\<close>

definition mysql_ok :: "('w, 'k, 'q) sink \<Rightarrow> mysql_state \<Rightarrow> bool" where
  "mysql_ok sk s \<longleftrightarrow> list_all2 (\<lambda>d r. row_of sk d = Some r) (my_deliveries s) (my_rows s)"

lemma mysql_state0_ok [simp]: "mysql_ok sk mysql_state0" "my_deliveries mysql_state0 = []"
  "my_rows mysql_state0 = []"
  by (simp_all add: mysql_ok_def mysql_state0_def)

lemma mysql_ok_length: "mysql_ok sk s \<Longrightarrow> length (my_rows s) = length (my_deliveries s)"
  by (auto simp: mysql_ok_def dest: list_all2_lengthD)

lemma mysql_flush_log:
  assumes "mysql_flush (traced_sink sk) nt (w, l) s = ((w', l'), s')" and "mysql_ok sk s"
  shows "s' = mysql_state0 \<and>
    (\<exists>es. l' = l @ es \<and> mset (settled_in es) = mset (my_deliveries s) \<and> log_ok sk es)"
proof -
  let ?pairs = "zip (my_deliveries s) (my_rows s)"
  let ?gs = "mysql_groups (traced_sink sk) (w, l) ?pairs"
  have "groups_ok sk ?gs"
    using assms(2)
    by (auto simp: groups_ok_def mysql_groups_filter mysql_ok_def list_all2_iff)
  moreover have "foldl (flush_group (traced_sink sk) nt) (w, l) ?gs = (w', l')" "s' = mysql_state0"
    using assms(1) by (auto simp: mysql_flush_def Let_def)
  moreover have "mset (map fst (concat (map snd ?gs))) = mset (my_deliveries s)"
    using mysql_ok_length [OF assms(2)]
    by (metis (no_types) mset_map mset_mysql_groups map_fst_zip)
  ultimately show ?thesis using flush_groups_log by metis
qed

section \<open>The contracts\<close>

lemma mysql_flush_full_log:
  assumes "mysql_flush_full (traced_sink sk) nt n (w, l) s = ((w', l'), s')" and "mysql_ok sk s"
  shows "mysql_ok sk s' \<and> length (my_deliveries s') < max 1 n \<and>
    (\<exists>es. l' = l @ es \<and> log_ok sk es \<and>
      mset (settled_in es) + mset (my_deliveries s') = mset (my_deliveries s))"
proof (cases "n \<le> length (my_rows s)")
  case True
  with assms have "mysql_flush (traced_sink sk) nt (w, l) s = ((w', l'), s')"
    by (simp add: mysql_flush_full_def)
  from mysql_flush_log [OF this assms(2)] show ?thesis by auto
next
  case False
  with assms show ?thesis
    using mysql_ok_length [OF assms(2)]
    by (auto simp: mysql_flush_full_def log_ok_quiet quiet_def intro!: exI [of _ "[]"])
qed

lemma log_ok_unstored:
  "settled_unstored sk d v \<Longrightarrow> log_ok sk [Settled d v]"
  by (cases v)
    (auto simp: log_ok_def inserted_rows_def settled_unstored_def row_weight_def row_of_def
      split: sum.splits)

lemma mysql_step_log:
  assumes ok: "mysql_ok sk s"
    and step: "mysql_step (traced_sink sk) nt n (w, l) s ev = ((w', l'), r)"
  shows "\<exists>es. l' = l @ es \<and> log_ok sk es \<and>
    (case r of
       Inr s' \<Rightarrow> mysql_ok sk s' \<and>
         mset (settled_in es) + mset (my_deliveries s') =
           mset (my_deliveries s) + mset (arrivals [ev]) \<and>
         (length (my_deliveries s) < max 1 n \<longrightarrow> length (my_deliveries s') < max 1 n) \<and>
         (ev = Tick \<longrightarrow> my_deliveries s' = [])
     | Inl e \<Rightarrow> settled_in es = [])"
proof (cases ev)
  case Closed
  with step show ?thesis
    by (auto simp: mysql_step_def log_ok_quiet quiet_def intro!: exI [of _ "[]"])
next
  case (Channel_Error e)
  with step have "alert (post_json (traced_sink sk)) nt (w, l) mysql_channel_alert = (w', l')"
    "r = Inl (Run_Err e)" by (auto simp: mysql_step_def)
  with alert_traced [OF this(1)] show ?thesis by (auto simp: log_ok_quiet)
next
  case Tick
  show ?thesis
  proof (cases "my_rows s = []")
    case True
    then have "my_deliveries s = []" using mysql_ok_length [OF ok] by simp
    with True step Tick ok show ?thesis
      by (auto simp: mysql_step_def log_ok_quiet quiet_def intro!: exI [of _ "[]"])
  next
    case False
    with step Tick obtain s' where "mysql_flush (traced_sink sk) nt (w, l) s = ((w', l'), s')"
      "r = Inr s'"
      by (cases "mysql_flush (traced_sink sk) nt (w, l) s") (auto simp: mysql_step_def)
    with mysql_flush_log [OF this(1) ok] Tick show ?thesis by auto
  qed
next
  case (Incoming d)
  show ?thesis
  proof (cases "\<exists>v. settled_unstored sk d v")
    case True
    then obtain v where v: "settled_unstored sk d v" by blast
    obtain s' where full: "mysql_flush_full (traced_sink sk) nt n (settle sk w d v, l @ [Settled d v]) s =
        ((w', l'), s')" and r: "r = Inr s'"
      using step Incoming v
      by (cases "mysql_flush_full (traced_sink sk) nt n (settle sk w d v, l @ [Settled d v]) s")
        (auto simp: mysql_step_def settled_unstored_def split: sum.splits)
    from mysql_flush_full_log [OF full ok] obtain es where "mysql_ok sk s'"
      "length (my_deliveries s') < max 1 n" "l' = (l @ [Settled d v]) @ es" "log_ok sk es"
      "mset (settled_in es) + mset (my_deliveries s') = mset (my_deliveries s)" by blast
    with r Incoming v show ?thesis
      using log_ok_append [OF log_ok_unstored [OF v]]
      by (intro exI [of _ "[Settled d v] @ es"]) auto
  next
    case stored: False
    then obtain m where m: "from_slice sk (dl_data d) = Inr m" "to_kicc_row m \<noteq> Ret None"
      by (cases "from_slice sk (dl_data d)") (auto simp: settled_unstored_def)
    show ?thesis
    proof (cases "to_kicc_row m")
      case Panic
      with step Incoming m show ?thesis
        by (auto simp: mysql_step_def log_ok_quiet quiet_def intro!: exI [of _ "[]"])
    next
      case (Ret x)
      with m obtain row where row: "to_kicc_row m = Ret (Some row)" by (cases x) auto
      let ?s = "s\<lparr>my_rows := my_rows s @ [row], my_deliveries := my_deliveries s @ [d]\<rparr>"
      obtain s' where full: "mysql_flush_full (traced_sink sk) nt n (w, l) ?s = ((w', l'), s')"
        and r: "r = Inr s'"
        using step Incoming m row
        by (cases "mysql_flush_full (traced_sink sk) nt n (w, l) ?s") (auto simp: mysql_step_def)
      have "mysql_ok sk ?s"
        using ok m(1) row by (auto simp: mysql_ok_def row_of_Some intro: list_all2_appendI)
      from mysql_flush_full_log [OF full this] r Incoming show ?thesis by auto
    qed
  qed
qed

text \<open>
  The consumer keeps both contracts of \<open>Consumer_Core\<close>, with the log as the world that is observed:
  \<open>weight\<close> is the row a delivery carries, with the statement of its table.
\<close>

interpretation my: storing_consumer "mysql_step (traced_sink sk) nt" "\<lambda>wl. settled_in (snd wl)"
  my_deliveries "mysql_ok sk" "\<lambda>wl. acked_in (snd wl)"
  "\<lambda>wl. inserted_rows (stored_in (snd wl))" "row_weight sk"
  for sk :: "'w mysql_sink" and nt
proof unfold_locales
  fix s s' :: mysql_state and n and w w' :: "'w \<times> mysql_insert db_call list" and ev e
  assume ok: "mysql_ok sk s"
  obtain u l u' l' where w: "w = (u, l)" "w' = (u', l')" by force
  {
    assume "mysql_step (traced_sink sk) nt n w s ev = (w', Inr s')"
    from mysql_step_log [OF ok this [unfolded w]]
    obtain es where es: "l' = l @ es" "mysql_ok sk s'"
        "mset (settled_in es) + mset (my_deliveries s') =
           mset (my_deliveries s) + mset (arrivals [ev])"
        "length (my_deliveries s) < max 1 n \<longrightarrow> length (my_deliveries s') < max 1 n" by auto
    show "mysql_ok sk s'" using es(2) .
    show "mset (settled_in (snd w')) + mset (my_deliveries s') =
        mset (settled_in (snd w)) + mset (my_deliveries s) + mset (arrivals [ev])"
      using es(1,3) w by (simp add: add.assoc)
    show "length (my_deliveries s) < max 1 n \<Longrightarrow> length (my_deliveries s') < max 1 n"
      using es(4) by blast
  }
  {
    assume "mysql_step (traced_sink sk) nt n w s ev = (w', Inl e)"
    from mysql_step_log [OF ok this [unfolded w]]
    show "mset (settled_in (snd w')) \<subseteq>#
        mset (settled_in (snd w)) + mset (my_deliveries s) + mset (arrivals [ev])"
      using w by (auto simp: subset_mset.add_increasing2 add.assoc)
  }
  {
    assume "mysql_step (traced_sink sk) nt n w s Tick = (w', Inr s')"
    from mysql_step_log [OF ok this [unfolded w]] show "my_deliveries s' = []" by auto
  }
  obtain v k r where st: "mysql_step (traced_sink sk) nt n (u, l) s ev = ((v, k), r)"
    by (metis surj_pair)
  from mysql_step_log [OF ok st] obtain es where es: "k = l @ es" "log_ok sk es" by blast
  have "fst (mysql_step (traced_sink sk) nt n w s ev) = (v, k)" using st w by simp
  with es show "\<exists>more. acked_in (snd (fst (mysql_step (traced_sink sk) nt n w s ev))) =
        acked_in (snd w) @ more \<and>
      inserted_rows (stored_in (snd (fst (mysql_step (traced_sink sk) nt n w s ev)))) =
        inserted_rows (stored_in (snd w)) + sum_list (map (row_weight sk) more)"
    using w by (auto simp: log_ok_def)
qed

end
