(* ===== verification/Consumer_Postgres.thy ===== *)
theory Consumer_Postgres
  imports Consumer_Core "HOL-Library.AList"
begin

text \<open>
  \<open>src/src/consumer/postgres.rs\<close>: queue messages become rows of daily totals; the rows of a batch are
  summed per key and added to the table with one upsert. Chrono is a parameter. At the end the
  consumer is shown to meet the contracts of \<open>Consumer_Core\<close>.
\<close>

section \<open>Totals\<close>

text \<open>The eight totals of a row: amounts of type \<open>'a\<close>, counts of type \<open>'c\<close>.\<close>

datatype ('a, 'c) totals =
  Totals (t_card_amount: 'a) (t_card_count: 'c) (t_cash_amount: 'a) (t_cash_count: 'c)
    (t_cancel_amount: 'a) (t_cancel_count: 'c) (t_other_amount: 'a) (t_other_count: 'c)

instantiation totals :: (comm_monoid_add, comm_monoid_add) comm_monoid_add
begin

definition zero_totals :: "('a, 'b) totals" where
  "zero_totals = Totals 0 0 0 0 0 0 0 0"

fun plus_totals :: "('a, 'b) totals \<Rightarrow> ('a, 'b) totals \<Rightarrow> ('a, 'b) totals" where
  "plus_totals (Totals a b c d e f g h) (Totals a' b' c' d' e' f' g' h') =
     Totals (a + a') (b + b') (c + c') (d + d') (e + e') (f + f') (g + g') (h + h')"

instance
proof
  fix x y z :: "('a, 'b) totals"
  show "x + y + z = x + (y + z)" by (cases x; cases y; cases z) (simp add: add.assoc)
  show "x + y = y + x" by (cases x; cases y) (simp add: add.commute)
  show "0 + x = x" by (cases x) (simp add: zero_totals_def)
qed

end

section \<open>From a message to a row\<close>

text \<open>
  What the code uses of \<open>chrono\<close>: \<open>NaiveDate::parse_from_str(s, "%Y%m%d")\<close> as a day number,
  \<open>NaiveTime::from_hms_opt\<close> as a second of the day, \<open>FixedOffset::east_opt\<close> as an offset in seconds, and
  \<open>from_local_datetime(..).earliest()?.timestamp()\<close>.
\<close>

record chrono =
  parse_ymd :: "rstr \<Rightarrow> int option"
  hms_opt :: "nat \<Rightarrow> nat \<Rightarrow> nat \<Rightarrow> nat option"
  east_opt :: "int \<Rightarrow> int option"
  earliest_timestamp :: "int \<Rightarrow> int \<Rightarrow> nat \<Rightarrow> i64 option"

text \<open>\<open>None\<close> is a return with \<open>?\<close>; the slice \<open>t[..2]\<close> panics inside a character.\<close>

definition parse_datetime_unix :: "chrono \<Rightarrow> rstr \<Rightarrow> rstr \<Rightarrow> i64 option rust" where
  "parse_datetime_unix ch approval_date approval_time =
     (case parse_ymd ch (trim approval_date) of
        None \<Rightarrow> Ret None
      | Some date \<Rightarrow>
          let t = trim approval_time in
          bind_rust
            (if byte_len t \<ge> 2
             then bind_rust (slice t 0 2) (\<lambda>h. Ret (parse_unsigned 32 h))
             else Ret (Some 0))
            (\<lambda>hour.
               Ret (Option.bind hour (\<lambda>hr.
                    Option.bind (hms_opt ch hr 0 0) (\<lambda>time.
                    Option.bind (east_opt ch (9 * 3600)) (\<lambda>kst.
                    earliest_timestamp ch kst date time))))))"

record daily_row =
  ts_unix :: i64
  dr_bid :: rstr
  dr_mid :: rstr
  dr_psn :: rstr
  dr_totals :: "(i64, i32) totals"

text \<open>This file has its own copy of \<open>parse_amount\<close>.\<close>

definition pg_parse_amount :: "rstr \<Rightarrow> i64" where
  "pg_parse_amount s =
     (let t = trim_start_matches 48 (trim s) in
      if t = [] then 0 else (case parse_i64 t of Some n \<Rightarrow> n | None \<Rightarrow> 0))"

lemma pg_parse_amount_eq [simp]: "pg_parse_amount = parse_amount"
  by (simp add: pg_parse_amount_def parse_amount_def fun_eq_iff)

definition to_daily_row :: "chrono \<Rightarrow> queue_message \<Rightarrow> daily_row option rust" where
  "to_daily_row ch msg =
     (let p = qm_payload msg in
      case qm_table_key msg of
        None \<Rightarrow> Ret None
      | Some bid \<Rightarrow>
          if bid = [] then Ret None
          else
            let mid = trim (str_field p ''merchant_no'' []);
                psn = trim (str_field p ''terminal_no'' []);
                approval_date = trim (str_field p ''approval_date'' []);
                approval_time = trim (str_field p ''approval_time'' [])
            in
            if byte_len approval_date \<noteq> 8 then Ret None
            else
              bind_rust (parse_datetime_unix ch approval_date approval_time) (\<lambda>ts.
                case ts of
                  None \<Rightarrow> Ret None
                | Some ts' \<Rightarrow>
                    let amount = pg_parse_amount (str_field p ''amount'' (lit ''0''));
                        cancel_flag = trim (str_field p ''cancel_flag'' []);
                        msg_type = trim (str_field p ''msg_type'' []);
                        is_cancel = (cancel_flag \<noteq> [] \<and> cancel_flag \<noteq> lit ''0'')
                    in Ret (Some
                         \<lparr> ts_unix = ts', dr_bid = bid, dr_mid = mid, dr_psn = psn,
                           dr_totals =
                             (if is_cancel then Totals 0 0 0 0 amount 1 0 0
                              else if msg_type = lit ''0200'' then Totals amount 1 0 0 0 0 0 0
                              else Totals 0 0 0 0 0 0 amount 1) \<rparr>)))"

section \<open>A flush\<close>

type_synonym agg_key = "i64 \<times> rstr \<times> rstr \<times> rstr"

definition key_of :: "daily_row \<Rightarrow> agg_key" where
  "key_of r = (ts_unix r, dr_bid r, dr_mid r, dr_psn r)"

text \<open>
  \<open>agg.entry(key).or_insert(zeros)\<close>, then \<open>+=\<close> on the eight totals; the release build wraps. The map is
  an association list with one entry per key.
\<close>

definition agg_add :: "(agg_key \<times> daily_row) list \<Rightarrow> daily_row \<Rightarrow> (agg_key \<times> daily_row) list" where
  "agg_add agg row =
     (let entry = (case map_of agg (key_of row) of
                     Some e \<Rightarrow> e
                   | None \<Rightarrow> row\<lparr>dr_totals := 0\<rparr>)
      in AList.update (key_of row) (entry\<lparr>dr_totals := dr_totals entry + dr_totals row\<rparr>) agg)"

text \<open>The twelve arrays bound to the statement.\<close>

record pg_upsert =
  ts_vec :: "i64 list"
  bid_vec :: "rstr list"
  mid_vec :: "rstr list"
  psn_vec :: "rstr list"
  card_a_vec :: "i64 list"
  card_c_vec :: "i32 list"
  cash_a_vec :: "i64 list"
  cash_c_vec :: "i32 list"
  canc_a_vec :: "i64 list"
  canc_c_vec :: "i32 list"
  othr_a_vec :: "i64 list"
  othr_c_vec :: "i32 list"

definition upsert_of :: "daily_row list \<Rightarrow> pg_upsert" where
  "upsert_of rows =
     \<lparr> ts_vec = map ts_unix rows, bid_vec = map dr_bid rows, mid_vec = map dr_mid rows,
       psn_vec = map dr_psn rows,
       card_a_vec = map (t_card_amount \<circ> dr_totals) rows,
       card_c_vec = map (t_card_count \<circ> dr_totals) rows,
       cash_a_vec = map (t_cash_amount \<circ> dr_totals) rows,
       cash_c_vec = map (t_cash_count \<circ> dr_totals) rows,
       canc_a_vec = map (t_cancel_amount \<circ> dr_totals) rows,
       canc_c_vec = map (t_cancel_count \<circ> dr_totals) rows,
       othr_a_vec = map (t_other_amount \<circ> dr_totals) rows,
       othr_c_vec = map (t_other_count \<circ> dr_totals) rows \<rparr>"

type_synonym 'w pg_sink = "('w, agg_key, pg_upsert) sink"

fun aggregate ::
  "'w pg_sink \<Rightarrow> chrono \<Rightarrow> 'w \<Rightarrow> (delivery \<times> queue_message) list \<Rightarrow> delivery list \<Rightarrow>
   (agg_key \<times> daily_row) list \<Rightarrow> 'w \<times> (delivery list \<times> (agg_key \<times> daily_row) list) rust" where
  "aggregate sk ch w [] group_deliveries agg = (w, Ret (group_deliveries, agg))"
| "aggregate sk ch w ((d, msg) # pairs) group_deliveries agg =
     (case to_daily_row ch msg of
        Panic \<Rightarrow> (w, Panic)
      | Ret (Some row) \<Rightarrow>
          aggregate sk ch w pairs (group_deliveries @ [d]) (agg_add agg row)
      | Ret None \<Rightarrow> aggregate sk ch (settle sk w d Ack) pairs group_deliveries agg)"

text \<open>\<open>agg.into_values().collect()\<close>: the values in the order of the map.\<close>

definition agg_values :: "'w pg_sink \<Rightarrow> 'w \<Rightarrow> (agg_key \<times> daily_row) list \<Rightarrow> daily_row list" where
  "agg_values sk w agg = List.map_filter (map_of agg) (hash_order sk w (map fst agg))"

text \<open>The alerts, with their Korean text as scalar values.\<close>

definition pg_label :: rstr where
  "pg_label = lit ''<b>[PostgreSQL '' @ [49548, 48708, 51088] @ lit '']</b>''"

definition pg_channel_alert :: rstr where
  "pg_channel_alert =
     [128308, 32] @ pg_label @
     [32, 52292, 45328, 32, 50724, 47448, 32, 8212, 32, 51116, 49884, 51089, 32, 50696, 51221]"

definition pg_upsert_alert :: "nat \<Rightarrow> rstr \<Rightarrow> rstr" where
  "pg_upsert_alert n code =
     [9888, 65039, 32] @ pg_label @ lit '' UPSERT '' @ [49892, 54056, 32, 40] @ dec_str n @
     [44148, 41, 32, 8212, 32] @ code"

record pg_state =
  pg_deliveries :: "delivery list"
  pg_messages :: "queue_message list"

definition pg_state0 :: pg_state where
  "pg_state0 = \<lparr> pg_deliveries = [], pg_messages = [] \<rparr>"

definition pg_flush ::
  "'w pg_sink \<Rightarrow> chrono \<Rightarrow> notifier option \<Rightarrow> 'w \<Rightarrow> pg_state \<Rightarrow> 'w \<times> pg_state rust" where
  "pg_flush sk ch nt w s =
     (let pairs = zip (pg_deliveries s) (pg_messages s) in
      case aggregate sk ch w pairs [] [] of
        (w1, Panic) \<Rightarrow> (w1, Panic)
      | (w1, Ret (group_deliveries, agg)) \<Rightarrow>
          if group_deliveries = [] then (w1, Ret pg_state0)
          else
            let rows = agg_values sk w agg;
                msg_count = length group_deliveries
            in (case execute sk w1 (upsert_of rows) of
                  (w2, Inr _) \<Rightarrow> (settle_all sk w2 Ack group_deliveries, Ret pg_state0)
                | (w2, Inl e) \<Rightarrow>
                    (settle_all sk
                       (alert (post_json sk) nt w2 (pg_upsert_alert msg_count (err_code e)))
                       Nack_Drop group_deliveries, Ret pg_state0)))"

section \<open>The loop\<close>

definition pg_continue :: "'w \<times> pg_state rust \<Rightarrow> 'w \<times> (consumer_end + pg_state)" where
  "pg_continue r =
     (case r of (w, Ret s) \<Rightarrow> (w, Inr s) | (w, Panic) \<Rightarrow> (w, Inl Run_Panicked))"

definition pg_flush_full ::
  "'w pg_sink \<Rightarrow> chrono \<Rightarrow> notifier option \<Rightarrow> nat \<Rightarrow> 'w \<Rightarrow> pg_state \<Rightarrow> 'w \<times> (consumer_end + pg_state)"
where
  "pg_flush_full sk ch nt batch_size w s =
     (if length (pg_messages s) \<ge> batch_size then pg_continue (pg_flush sk ch nt w s)
      else (w, Inr s))"

definition pg_step ::
  "'w pg_sink \<Rightarrow> chrono \<Rightarrow> notifier option \<Rightarrow> nat \<Rightarrow> 'w \<Rightarrow> pg_state \<Rightarrow> consumer_event \<Rightarrow>
   'w \<times> (consumer_end + pg_state)" where
  "pg_step sk ch nt batch_size w s ev =
     (case ev of
        Closed \<Rightarrow> (w, Inl Run_Ok)
      | Channel_Error e \<Rightarrow> (alert (post_json sk) nt w pg_channel_alert, Inl (Run_Err e))
      | Incoming d \<Rightarrow>
          (case from_slice sk (dl_data d) of
             Inr msg \<Rightarrow>
               pg_flush_full sk ch nt batch_size w
                 (s\<lparr>pg_messages := pg_messages s @ [msg], pg_deliveries := pg_deliveries s @ [d]\<rparr>)
           | Inl e \<Rightarrow> pg_flush_full sk ch nt batch_size (settle sk w d Nack_Drop) s)
      | Tick \<Rightarrow>
          if pg_messages s \<noteq> [] then pg_continue (pg_flush sk ch nt w s) else (w, Inr s))"

definition pg_run ::
  "'w pg_sink \<Rightarrow> chrono \<Rightarrow> rstr \<Rightarrow> rstr \<Rightarrow> notifier option \<Rightarrow> nat \<Rightarrow> nat \<Rightarrow> nat \<Rightarrow> 'w \<Rightarrow>
   consumer_event list \<Rightarrow> 'w \<times> (consumer_end + pg_state)" where
  "pg_run sk ch amqp_url queue_name nt batch_size batch_interval_secs nanos w evs =
     run_consumer sk
       (setup_requests amqp_url queue_name (lit ''postgres-consumer-'') nanos batch_size)
       batch_interval_secs (pg_step sk ch nt batch_size) pg_state0 w evs"

section \<open>Lemmas on the aggregation\<close>

definition agg_ok :: "(agg_key \<times> daily_row) list \<Rightarrow> bool" where
  "agg_ok agg \<longleftrightarrow> distinct (map fst agg) \<and> (\<forall>(k, e) \<in> set agg. key_of e = k)"

definition agg_total :: "(agg_key \<times> daily_row) list \<Rightarrow> agg_key \<Rightarrow> (i64, i32) totals" where
  "agg_total agg k = (case map_of agg k of Some e \<Rightarrow> dr_totals e | None \<Rightarrow> 0)"

lemma key_of_totals [simp]: "key_of (r\<lparr>dr_totals := t\<rparr>) = key_of r"
  by (simp add: key_of_def)

lemma map_of_agg_add:
  "map_of (agg_add agg row) =
     (map_of agg)(key_of row \<mapsto>
       (case map_of agg (key_of row) of
          Some e \<Rightarrow> e\<lparr>dr_totals := dr_totals e + dr_totals row\<rparr>
        | None \<Rightarrow> row))"
  by (cases "map_of agg (key_of row)") (simp_all add: agg_add_def update_conv')

lemma agg_add_ok: "agg_ok agg \<Longrightarrow> agg_ok (agg_add agg row)"
proof -
  assume ok: "agg_ok agg"
  have "distinct (map fst (agg_add agg row))"
    using ok by (simp add: agg_add_def agg_ok_def Let_def distinct_update)
  moreover have "key_of e = k" if "(k, e) \<in> set (agg_add agg row)" for k e
  proof -
    have m: "map_of (agg_add agg row) k = Some e"
      by (rule map_of_is_SomeI) (rule calculation, rule that)
    have old: "key_of e' = j" if "map_of agg j = Some e'" for j e'
      using ok map_of_SomeD [OF that] by (simp add: agg_ok_def) blast
    show ?thesis
    proof (cases "k = key_of row")
      case False
      with m old [of k e] show ?thesis by (simp add: map_of_agg_add)
    next
      case True
      with m old [of k] show ?thesis
        by (cases "map_of agg k") (simp_all add: map_of_agg_add, metis key_of_totals)
    qed
  qed
  ultimately show ?thesis unfolding agg_ok_def by blast
qed

lemma agg_total_add:
  "agg_total (agg_add agg row) k =
     agg_total agg k + (if k = key_of row then dr_totals row else 0)"
  by (auto simp: agg_total_def map_of_agg_add split: option.split)

lemma agg_keys_add: "fst ` set (agg_add agg row) = insert (key_of row) (fst ` set agg)"
  by (simp add: agg_add_def Let_def dom_update)

definition key_total :: "agg_key \<Rightarrow> (agg_key \<times> (i64, i32) totals) list \<Rightarrow> (i64, i32) totals" where
  "key_total k rows = sum_list (map snd (filter (\<lambda>r. fst r = k) rows))"

abbreviation keyed :: "daily_row \<Rightarrow> agg_key \<times> (i64, i32) totals" where
  "keyed r \<equiv> (key_of r, dr_totals r)"

lemma agg_foldl:
  "agg_ok agg \<Longrightarrow> agg_ok (foldl agg_add agg rows) \<and>
   fst ` set (foldl agg_add agg rows) = fst ` set agg \<union> key_of ` set rows \<and>
   agg_total (foldl agg_add agg rows) k = agg_total agg k + key_total k (map keyed rows)"
proof (induction rows arbitrary: agg)
  case Nil
  then show ?case by (simp add: key_total_def)
next
  case (Cons r rows)
  from Cons.IH [OF agg_add_ok [OF Cons.prems, of r]] show ?case
    by (auto simp: agg_total_add agg_keys_add key_total_def add.assoc)
qed

lemma agg_values_rows:
  assumes "agg_ok agg"
  shows "distinct (map key_of (agg_values sk w agg))"
    and "key_of ` set (agg_values sk w agg) = fst ` set agg"
    and "key_total k (map keyed (agg_values sk w agg)) = agg_total agg k"
proof -
  let ?ks = "hash_order sk w (map fst agg)" and ?rows = "agg_values sk w agg"
  have some: "map_of agg j = Some (the (map_of agg j)) \<and> key_of (the (map_of agg j)) = j"
    if "j \<in> set ?ks" for j
  proof -
    from that obtain e where "map_of agg j = Some e"
      by (metis not_None_eq map_of_eq_None_iff set_map set_hash_order)
    with assms(1) map_of_SomeD [of agg j e] show ?thesis by (auto simp: agg_ok_def)
  qed
  have rows: "?rows = map (\<lambda>j. the (map_of agg j)) ?ks"
  proof -
    have "filter (\<lambda>j. map_of agg j \<noteq> None) ?ks = ?ks"
      using some by (intro filter_True) (metis option.distinct(1))
    then show ?thesis by (simp add: agg_values_def List.map_filter_def)
  qed
  have keys: "map key_of ?rows = ?ks"
    unfolding rows map_map comp_def by (rule map_idI) (rule conjunct2 [OF some])
  show "distinct (map key_of ?rows)" unfolding keys by simp
  show "key_of ` set ?rows = fst ` set agg"
    using arg_cong [OF keys, of set] by simp
  have "keyed (the (map_of agg j)) = (j, agg_total agg j)" if "j \<in> set ?ks" for j
  proof -
    from some [OF that] obtain e where "map_of agg j = Some e" "key_of e = j" by metis
    then show ?thesis by (simp add: agg_total_def)
  qed
  then have "map keyed ?rows = map (\<lambda>j. (j, agg_total agg j)) ?ks"
    unfolding rows map_map comp_def by (intro map_cong refl)
  then have "key_total k (map keyed ?rows) =
      sum_list (map (\<lambda>j. agg_total agg j) (filter (\<lambda>j. j = k) ?ks))"
    by (simp add: key_total_def filter_map comp_def)
  also have "\<dots> = agg_total agg k"
  proof (cases "k \<in> set ?ks")
    case True
    then have "filter (\<lambda>j. j = k) ?ks = [k]"
      by (subst filter_eq_distinct) simp_all
    then show ?thesis by simp
  next
    case False
    then have "filter (\<lambda>j. j = k) ?ks = []" by (auto simp: filter_empty_conv)
    moreover have "map_of agg k = None" using False by (auto simp: map_of_eq_None_iff)
    ultimately show ?thesis by (simp add: agg_total_def)
  qed
  finally show "key_total k (map keyed ?rows) = agg_total agg k" .
qed

text \<open>What a batch keeps of its rows: one row per key, with the sum of the key's rows.\<close>

definition sums_of :: "daily_row list \<Rightarrow> daily_row list \<Rightarrow> bool" where
  "sums_of rows vals \<longleftrightarrow>
     distinct (map key_of vals) \<and> key_of ` set vals = key_of ` set rows \<and>
     (\<forall>k. key_total k (map keyed vals) = key_total k (map keyed rows))"

lemma sums_of_aggregate: "sums_of rows (agg_values sk w (foldl agg_add [] rows))"
proof -
  have "agg_ok []" by (simp add: agg_ok_def)
  note agg = agg_foldl [OF this, of rows]
  then have ok: "agg_ok (foldl agg_add [] rows)" by blast
  have "agg_total (foldl agg_add [] rows) k = key_total k (map keyed rows)" for k
    using agg [of k] by (simp add: agg_total_def)
  then show ?thesis
    using agg_values_rows(1,2) [OF ok, of sk w] agg_values_rows(3) [OF ok, of _ sk w] agg
    by (simp add: sums_of_def)
qed

section \<open>The rows of the statement\<close>

text \<open>\<open>UNNEST\<close> of arrays of one length: one row per index.\<close>

definition unnest :: "pg_upsert \<Rightarrow> (agg_key \<times> (i64, i32) totals) list" where
  "unnest q =
     map (\<lambda>i. ((ts_vec q ! i, bid_vec q ! i, mid_vec q ! i, psn_vec q ! i),
               Totals (card_a_vec q ! i) (card_c_vec q ! i) (cash_a_vec q ! i) (cash_c_vec q ! i)
                 (canc_a_vec q ! i) (canc_c_vec q ! i) (othr_a_vec q ! i) (othr_c_vec q ! i)))
       [0..<length (ts_vec q)]"

lemma unnest_upsert_of [simp]: "unnest (upsert_of rows) = map keyed rows"
  by (rule nth_equalityI) (simp_all add: unnest_def upsert_of_def key_of_def)

section \<open>Lemmas on a flush\<close>

text \<open>The row of a delivery, with its failures.\<close>

definition day_row :: "('w, 'k, 'q) sink \<Rightarrow> chrono \<Rightarrow> delivery \<Rightarrow> daily_row option rust" where
  "day_row sk ch d =
     (case from_slice sk (dl_data d) of Inr m \<Rightarrow> to_daily_row ch m | Inl _ \<Rightarrow> Ret None)"

lemma day_row_traced [simp]: "day_row (traced_sink sk) = day_row sk"
  by (simp add: day_row_def fun_eq_iff)

definition day_weight :: "('w, 'k, 'q) sink \<Rightarrow> chrono \<Rightarrow> agg_key \<Rightarrow> delivery \<Rightarrow> (i64, i32) totals" where
  "day_weight sk ch k d =
     (case day_row sk ch d of
        Ret (Some r) \<Rightarrow> if key_of r = k then dr_totals r else 0
      | _ \<Rightarrow> 0)"

definition given_total :: "agg_key \<Rightarrow> pg_upsert list \<Rightarrow> (i64, i32) totals" where
  "given_total k qs = sum_list (map (\<lambda>q. key_total k (unnest q)) qs)"

lemma given_total_append [simp]: "given_total k (l @ m) = given_total k l + given_total k m"
  by (simp add: given_total_def)

definition carries_day :: "('w, 'k, 'q) sink \<Rightarrow> chrono \<Rightarrow> pg_upsert \<Rightarrow> delivery \<Rightarrow> bool" where
  "carries_day sk ch q d \<longleftrightarrow>
     (case day_row sk ch d of Ret (Some r) \<Rightarrow> key_of r \<in> fst ` set (unnest q) | _ \<Rightarrow> False)"

definition day_unstored :: "('w, 'k, 'q) sink \<Rightarrow> chrono \<Rightarrow> delivery \<Rightarrow> verdict \<Rightarrow> bool" where
  "day_unstored sk ch d v \<longleftrightarrow>
     (case from_slice sk (dl_data d) of
        Inl _ \<Rightarrow> v = Nack_Drop
      | Inr m \<Rightarrow> to_daily_row ch m = Ret None \<and> v = Ack)"

definition day_log_ok :: "('w, 'k, 'q) sink \<Rightarrow> chrono \<Rightarrow> pg_upsert db_call list \<Rightarrow> bool" where
  "day_log_ok sk ch es \<longleftrightarrow>
     (\<forall>k. given_total k (stored_in es) = sum_list (map (day_weight sk ch k) (acked_in es))) \<and>
     justified (carries_day sk ch) (day_unstored sk ch) [] es"

lemma day_log_ok_append: "day_log_ok sk ch l \<Longrightarrow> day_log_ok sk ch m \<Longrightarrow> day_log_ok sk ch (l @ m)"
  by (auto simp: day_log_ok_def intro: justified_append)

lemma day_log_ok_quiet: "quiet es \<Longrightarrow> day_log_ok sk ch es"
  by (auto simp: day_log_ok_def given_total_def justified_quiet)

lemma day_log_ok_Nil [simp]: "day_log_ok sk ch []"
  by (simp add: day_log_ok_quiet quiet_def)

lemma day_log_ok_unstored: "day_unstored sk ch d v \<Longrightarrow> day_log_ok sk ch [Settled d v]"
  by (cases v)
    (auto simp: day_log_ok_def given_total_def day_unstored_def day_weight_def day_row_def
      split: sum.splits)

text \<open>
  The log of a consumer as a language: verdicts on deliveries that give no row, alerts, and blocks of
  one statement with the verdicts on the deliveries it carries, at most \<open>N\<close> of them.
\<close>

inductive day_log ::
  "('w, 'k, 'q) sink \<Rightarrow> chrono \<Rightarrow> nat \<Rightarrow> pg_upsert db_call list \<Rightarrow> bool" for sk ch N where
  log_Nil: "day_log sk ch N []"
| log_unstored: "day_log sk ch N l \<Longrightarrow> day_unstored sk ch d v \<Longrightarrow> day_log sk ch N (l @ [Settled d v])"
| log_quiet: "day_log sk ch N l \<Longrightarrow> quiet es \<Longrightarrow> day_log sk ch N (l @ es)"
| log_statement: "day_log sk ch N l \<Longrightarrow> length gs \<le> N \<Longrightarrow>
    map (day_row sk ch) gs = map (\<lambda>x. Ret (Some x)) rows \<Longrightarrow> sums_of rows vals \<Longrightarrow> quiet es \<Longrightarrow>
    day_log sk ch N (l @ Executed (upsert_of vals) r # es @ map (\<lambda>d. Settled d (verdict_of r)) gs)"

lemma day_log_append: "day_log sk ch N m \<Longrightarrow> day_log sk ch N l \<Longrightarrow> day_log sk ch N (l @ m)"
proof (induction rule: day_log.induct)
  case (log_unstored m d v)
  then show ?case by (metis append.assoc day_log.log_unstored)
next
  case (log_quiet m es)
  then show ?case by (metis append.assoc day_log.log_quiet)
next
  case (log_statement m gs rows vals es r)
  then show ?case
    using day_log.log_statement [of sk ch N "l @ m" gs rows vals es r] by simp
qed simp

lemma day_log_single: "day_unstored sk ch d v \<Longrightarrow> day_log sk ch N [Settled d v]"
  using day_log.log_unstored [OF day_log.log_Nil] by simp

lemma day_log_alerts: "quiet es \<Longrightarrow> day_log sk ch N es"
  using day_log.log_quiet [OF day_log.log_Nil] by simp

lemma day_log_mono: "day_log sk ch N l \<Longrightarrow> N \<le> M \<Longrightarrow> day_log sk ch M l"
  by (induction rule: day_log.induct) (auto intro: day_log.intros)

declare day_log.log_Nil [simp]

lemma aggregate_log:
  assumes "aggregate (traced_sink sk) ch (w, l) pairs gd agg = ((w', l'), r)"
    and "\<forall>(d, m) \<in> set pairs. from_slice sk (dl_data d) = Inr m"
  shows "\<exists>es. l' = l @ es \<and> day_log sk ch N es \<and>
    (case r of
       Panic \<Rightarrow> mset (settled_in es) \<subseteq># mset (map fst pairs)
     | Ret (gd', agg') \<Rightarrow>
         \<exists>gs rows. gd' = gd @ gs \<and> mset (settled_in es) + mset gs = mset (map fst pairs) \<and>
           map (day_row sk ch) gs = map (\<lambda>x. Ret (Some x)) rows \<and>
           agg' = foldl agg_add agg rows)"
  using assms
proof (induction pairs arbitrary: w l gd agg)
  case Nil
  then show ?case by (auto intro!: exI [of _ "[]"])
next
  case (Cons p pairs)
  obtain d m where p: "p = (d, m)" by force
  with Cons.prems(2) have fs: "from_slice sk (dl_data d) = Inr m"
    and rest: "\<forall>(d, m) \<in> set pairs. from_slice sk (dl_data d) = Inr m" by auto
  show ?case
  proof (cases "to_daily_row ch m")
    case Panic
    with Cons.prems(1) p show ?thesis by (auto intro!: exI [of _ "[]"])
  next
    case (Ret x)
    show ?thesis
    proof (cases x)
      case None
      with Cons.prems(1) p Ret have "aggregate (traced_sink sk) ch (settle sk w d Ack, l @ [Settled d Ack])
          pairs gd agg = ((w', l'), r)" by simp
      from Cons.IH [OF this rest] obtain es where es: "l' = (l @ [Settled d Ack]) @ es" "day_log sk ch N es"
        "case r of
           Panic \<Rightarrow> mset (settled_in es) \<subseteq># mset (map fst pairs)
         | Ret (gd', agg') \<Rightarrow>
             \<exists>gs rows. gd' = gd @ gs \<and> mset (settled_in es) + mset gs = mset (map fst pairs) \<and>
               map (day_row sk ch) gs = map (\<lambda>x. Ret (Some x)) rows \<and>
               agg' = foldl agg_add agg rows" by blast
      have "day_log sk ch N ([Settled d Ack] @ es)"
        using fs Ret None es(2)
        by (intro day_log_append day_log_single) (simp_all add: day_unstored_def)
      with es p show ?thesis
        by (intro exI [of _ "[Settled d Ack] @ es"]) (auto split: rust.splits)
    next
      case (Some row)
      with Cons.prems(1) p Ret have "aggregate (traced_sink sk) ch (w, l) pairs (gd @ [d])
          (agg_add agg row) = ((w', l'), r)" by simp
      from Cons.IH [OF this rest] obtain es where es: "l' = l @ es" "day_log sk ch N es"
        "case r of
           Panic \<Rightarrow> mset (settled_in es) \<subseteq># mset (map fst pairs)
         | Ret (gd', agg') \<Rightarrow>
             \<exists>gs rows. gd' = (gd @ [d]) @ gs \<and> mset (settled_in es) + mset gs = mset (map fst pairs) \<and>
               map (day_row sk ch) gs = map (\<lambda>x. Ret (Some x)) rows \<and>
               agg' = foldl agg_add (agg_add agg row) rows" by blast
      have row: "day_row sk ch d = Ret (Some row)" using fs Ret Some by (simp add: day_row_def)
      show ?thesis
      proof (cases r)
        case Panic
        with es p show ?thesis
          by (intro exI [of _ es]) (auto intro: subseteq_add_mset)
      next
        case (Ret y)
        then obtain gs rows where y: "y = ((gd @ [d]) @ gs, foldl agg_add (agg_add agg row) rows)"
          "mset (settled_in es) + mset gs = mset (map fst pairs)"
          "map (day_row sk ch) gs = map (\<lambda>x. Ret (Some x)) rows" using es(3) by auto
        with Ret row es p show ?thesis
          by (intro exI [of _ es])
            (auto intro!: exI [of _ "d # gs"] exI [of _ "row # rows"])
      qed
    qed
  qed
qed

lemma key_total_rows:
  "map (day_row sk ch) gs = map (\<lambda>x. Ret (Some x)) rows \<Longrightarrow>
   key_total k (map keyed rows) = sum_list (map (day_weight sk ch k) gs)"
proof (induction gs arbitrary: rows)
  case Nil
  then show ?case by (simp add: key_total_def)
next
  case (Cons d gs)
  then obtain r rs where rows: "rows = r # rs" "day_row sk ch d = Ret (Some r)"
    "map (day_row sk ch) gs = map (\<lambda>x. Ret (Some x)) rs" by (cases rows) auto
  have "day_weight sk ch k d = (if key_of r = k then dr_totals r else 0)"
    using rows(2) by (simp add: day_weight_def)
  then show ?case using Cons.IH [OF rows(3)] rows(1) by (auto simp: key_total_def)
qed

text \<open>The statement of a flush, given what it aggregated.\<close>

lemma upsert_carries:
  assumes "map (day_row sk ch) gs = map (\<lambda>x. Ret (Some x)) rows" and "sums_of rows vals"
  shows "key_total k (unnest (upsert_of vals)) = sum_list (map (day_weight sk ch k) gs)"
    and "d \<in> set gs \<Longrightarrow> carries_day sk ch (upsert_of vals) d"
proof -
  show "key_total k (unnest (upsert_of vals)) = sum_list (map (day_weight sk ch k) gs)"
    using key_total_rows [OF assms(1)] assms(2) unfolding sums_of_def unnest_upsert_of by metis
  assume "d \<in> set gs"
  then have "day_row sk ch d \<in> set (map (\<lambda>x. Ret (Some x)) rows)"
    using assms(1) by (metis image_eqI set_map)
  then obtain r where r: "day_row sk ch d = Ret (Some r)" "r \<in> set rows" by auto
  have "fst ` set (unnest (upsert_of vals)) = key_of ` set rows"
    using assms(2) unfolding unnest_upsert_of set_map image_image fst_conv by (simp add: sums_of_def)
  with r show "carries_day sk ch (upsert_of vals) d" by (simp add: carries_day_def)
qed

text \<open>A state whose messages are those of its deliveries.\<close>

definition pg_ok :: "('w, 'k, 'q) sink \<Rightarrow> pg_state \<Rightarrow> bool" where
  "pg_ok sk s \<longleftrightarrow>
     list_all2 (\<lambda>d m. from_slice sk (dl_data d) = Inr m) (pg_deliveries s) (pg_messages s)"

lemma pg_state0_ok [simp]: "pg_ok sk pg_state0" "pg_deliveries pg_state0 = []"
  "pg_messages pg_state0 = []"
  by (simp_all add: pg_ok_def pg_state0_def)

lemma pg_ok_length: "pg_ok sk s \<Longrightarrow> length (pg_messages s) = length (pg_deliveries s)"
  by (auto simp: pg_ok_def dest: list_all2_lengthD)

lemma statement_log:
  assumes "quiet es" and "\<And>k. key_total k (unnest q) = sum_list (map (day_weight sk ch k) gs)"
    and "\<And>d. d \<in> set gs \<Longrightarrow> carries_day sk ch q d"
  shows "day_log_ok sk ch (Executed q r # es @ map (\<lambda>d. Settled d (verdict_of r)) gs)"
    (is "day_log_ok sk ch ?e")
proof -
  have "given_total k (stored_in ?e) = sum_list (map (day_weight sk ch k) (acked_in ?e))" for k
    using assms(1,2) by (cases r) (simp_all add: verdict_of_def given_total_def)
  moreover have "justified (carries_day sk ch) (day_unstored sk ch) [] ?e"
    using assms(1,3) by (auto simp: justified_quiet_append intro!: justified_settled)
  ultimately show ?thesis by (simp add: day_log_ok_def)
qed

lemma day_log_conforms: "day_log sk ch N l \<Longrightarrow> day_log_ok sk ch l"
proof (induction rule: day_log.induct)
  case (log_statement l gs rows vals es r)
  note carries = upsert_carries [OF log_statement.hyps(3,4)]
  show ?case
    by (rule day_log_ok_append [OF log_statement.IH statement_log [OF log_statement.hyps(5) carries]])
qed (simp_all add: day_log_ok_append day_log_ok_unstored day_log_ok_quiet)

lemma pg_flush_log:
  assumes flush: "pg_flush (traced_sink sk) ch nt (w, l) s = ((w', l'), r)" and ok: "pg_ok sk s"
  shows "\<exists>es. l' = l @ es \<and> day_log sk ch (length (pg_deliveries s)) es \<and>
    (case r of
       Panic \<Rightarrow> mset (settled_in es) \<subseteq># mset (pg_deliveries s)
     | Ret s' \<Rightarrow> s' = pg_state0 \<and> mset (settled_in es) = mset (pg_deliveries s))"
proof -
  let ?pairs = "zip (pg_deliveries s) (pg_messages s)"
  have pairs: "map fst ?pairs = pg_deliveries s" using pg_ok_length [OF ok] by simp
  have parsed: "\<forall>(d, m) \<in> set ?pairs. from_slice sk (dl_data d) = Inr m"
    using ok by (auto simp: pg_ok_def list_all2_iff)
  obtain w1 l1 a where agg: "aggregate (traced_sink sk) ch (w, l) ?pairs [] [] = ((w1, l1), a)"
    by (metis surj_pair)
  from aggregate_log [OF agg parsed] obtain e1 where e1: "l1 = l @ e1"
      "day_log sk ch (length (pg_deliveries s)) e1"
    and a: "case a of
       Panic \<Rightarrow> mset (settled_in e1) \<subseteq># mset (map fst ?pairs)
     | Ret (gd', agg') \<Rightarrow>
         \<exists>gs rows. gd' = [] @ gs \<and> mset (settled_in e1) + mset gs = mset (map fst ?pairs) \<and>
           map (day_row sk ch) gs = map (\<lambda>x. Ret (Some x)) rows \<and>
           agg' = foldl agg_add [] rows" by blast
  show ?thesis
  proof (cases a)
    case Panic
    with flush agg have "r = Panic" "l' = l1" by (simp_all add: pg_flush_def)
    with Panic a e1 pairs show ?thesis by auto
  next
    case (Ret y)
    with a obtain gs rows where y: "y = (gs, foldl agg_add [] rows)"
      and acc: "mset (settled_in e1) + mset gs = mset (pg_deliveries s)"
      and rows: "map (day_row sk ch) gs = map (\<lambda>x. Ret (Some x)) rows"
      using pairs by auto
    let ?vals = "agg_values (traced_sink sk) (w, l) (foldl agg_add [] rows)"
    let ?q = "upsert_of ?vals"
    show ?thesis
    proof (cases "gs = []")
      case True
      with flush agg Ret y have "r = Ret pg_state0" "l' = l1" by (simp_all add: pg_flush_def)
      with True acc e1 show ?thesis by auto
    next
      case False
      obtain w2 res where ex: "execute sk w1 ?q = (w2, res)" by force
      have "\<exists>es. quiet es \<and> r = Ret pg_state0 \<and>
          l' = l1 @ Executed ?q res # es @ map (\<lambda>d. Settled d (verdict_of res)) gs"
      proof (cases res)
        case (Inr u)
        with flush agg Ret y False ex show ?thesis
          by (intro exI [of _ "[]"])
            (simp add: pg_flush_def Let_def verdict_of_def quiet_def)
      next
        case (Inl err)
        let ?l = "l1 @ [Executed ?q (Inl err)]"
        obtain w3 l3 where al: "alert (post_json (traced_sink sk)) nt (w2, ?l)
            (pg_upsert_alert (length gs) (err_code err)) = (w3, l3)" by force
        from alert_traced [OF al] obtain es where "l3 = ?l @ es" "quiet es" by blast
        with flush agg Ret y False ex Inl al show ?thesis
          by (intro exI [of _ es]) (simp add: pg_flush_def Let_def verdict_of_def)
      qed
      then obtain es where es: "quiet es" "r = Ret pg_state0"
        "l' = l1 @ Executed ?q res # es @ map (\<lambda>d. Settled d (verdict_of res)) gs" by blast
      let ?e = "Executed ?q res # es @ map (\<lambda>d. Settled d (verdict_of res)) gs"
      have "size (mset (settled_in e1) + mset gs) = length (pg_deliveries s)" using acc by simp
      then have "length gs \<le> length (pg_deliveries s)" by simp
      from day_log.log_statement [OF e1(2) this rows sums_of_aggregate es(1)]
      have "day_log sk ch (length (pg_deliveries s)) (e1 @ ?e)" .
      moreover have "settled_in ?e = gs" using es(1) by simp
      then have "mset (settled_in (e1 @ ?e)) = mset (pg_deliveries s)"
        using acc by (simp del: settled_in.simps)
      ultimately show ?thesis using es e1(1) by (intro exI [of _ "e1 @ ?e"]) simp
    qed
  qed
qed

section \<open>The contracts\<close>

lemma pg_continue_simps [simp]:
  "pg_continue (w, Ret s) = (w, Inr s)" "pg_continue (w, Panic) = (w, Inl Run_Panicked)"
  by (simp_all add: pg_continue_def)

lemma pg_continue_log:
  assumes "pg_continue (pg_flush (traced_sink sk) ch nt (w, l) s) = ((w', l'), r)" and "pg_ok sk s"
  shows "\<exists>es. l' = l @ es \<and> day_log sk ch (length (pg_deliveries s)) es \<and>
    (case r of
       Inl e \<Rightarrow> mset (settled_in es) \<subseteq># mset (pg_deliveries s)
     | Inr s' \<Rightarrow> s' = pg_state0 \<and> mset (settled_in es) = mset (pg_deliveries s))"
proof -
  obtain w1 l1 a where fl: "pg_flush (traced_sink sk) ch nt (w, l) s = ((w1, l1), a)"
    by (metis surj_pair)
  from pg_flush_log [OF fl assms(2)] fl assms(1) show ?thesis by (cases a) auto
qed

lemma pg_flush_full_log:
  assumes full: "pg_flush_full (traced_sink sk) ch nt n (w, l) s = ((w', l'), r)" and ok: "pg_ok sk s"
  shows "\<exists>es. l' = l @ es \<and> day_log sk ch (length (pg_deliveries s)) es \<and>
    (case r of
       Inl e \<Rightarrow> mset (settled_in es) \<subseteq># mset (pg_deliveries s)
     | Inr s' \<Rightarrow> pg_ok sk s' \<and> length (pg_deliveries s') < max 1 n \<and>
         mset (settled_in es) + mset (pg_deliveries s') = mset (pg_deliveries s))"
proof (cases "n \<le> length (pg_messages s)")
  case True
  with full have "pg_continue (pg_flush (traced_sink sk) ch nt (w, l) s) = ((w', l'), r)"
    by (simp add: pg_flush_full_def)
  from pg_continue_log [OF this ok] show ?thesis by (cases r) auto
next
  case False
  with full ok pg_ok_length [OF ok] show ?thesis
    by (auto simp: pg_flush_full_def intro!: exI [of _ "[]"])
qed

lemma pg_step_log:
  assumes ok: "pg_ok sk s" and step: "pg_step (traced_sink sk) ch nt n (w, l) s ev = ((w', l'), r)"
  shows "\<exists>es. l' = l @ es \<and> day_log sk ch (Suc (length (pg_deliveries s))) es \<and>
    (case r of
       Inr s' \<Rightarrow> pg_ok sk s' \<and>
         mset (settled_in es) + mset (pg_deliveries s') =
           mset (pg_deliveries s) + mset (arrivals [ev]) \<and>
         (length (pg_deliveries s) < max 1 n \<longrightarrow> length (pg_deliveries s') < max 1 n) \<and>
         (ev = Tick \<longrightarrow> pg_deliveries s' = [])
     | Inl e \<Rightarrow> mset (settled_in es) \<subseteq># mset (pg_deliveries s) + mset (arrivals [ev]))"
proof (cases ev)
  case Closed
  with step show ?thesis by (auto simp: pg_step_def intro!: exI [of _ "[]"])
next
  case (Channel_Error e)
  with step have "alert (post_json (traced_sink sk)) nt (w, l) pg_channel_alert = (w', l')"
    "r = Inl (Run_Err e)" by (auto simp: pg_step_def)
  with alert_traced [OF this(1)] show ?thesis by (auto simp: day_log_alerts)
next
  case Tick
  show ?thesis
  proof (cases "pg_messages s = []")
    case True
    then have "pg_deliveries s = []" using pg_ok_length [OF ok] by simp
    with True step Tick ok show ?thesis by (auto simp: pg_step_def intro!: exI [of _ "[]"])
  next
    case False
    with step Tick have "pg_continue (pg_flush (traced_sink sk) ch nt (w, l) s) = ((w', l'), r)"
      by (simp add: pg_step_def)
    from pg_continue_log [OF this ok] Tick show ?thesis
      by (cases r) (auto elim!: day_log_mono)
  qed
next
  case (Incoming d)
  show ?thesis
  proof (cases "from_slice sk (dl_data d)")
    case (Inl e)
    then have un: "day_unstored sk ch d Nack_Drop" by (simp add: day_unstored_def)
    have "pg_flush_full (traced_sink sk) ch nt n (settle sk w d Nack_Drop, l @ [Settled d Nack_Drop]) s =
        ((w', l'), r)"
      using step Incoming Inl by (simp add: pg_step_def)
    from pg_flush_full_log [OF this ok] obtain es where "l' = (l @ [Settled d Nack_Drop]) @ es"
      "day_log sk ch (length (pg_deliveries s)) es"
      "case r of
         Inl e \<Rightarrow> mset (settled_in es) \<subseteq># mset (pg_deliveries s)
       | Inr s' \<Rightarrow> pg_ok sk s' \<and> length (pg_deliveries s') < max 1 n \<and>
           mset (settled_in es) + mset (pg_deliveries s') = mset (pg_deliveries s)" by blast
    with Incoming show ?thesis
      using day_log_append [OF day_log_mono day_log_single [OF un]]
      by (intro exI [of _ "[Settled d Nack_Drop] @ es"]) (cases r; auto)
  next
    case (Inr m)
    let ?s = "s\<lparr>pg_messages := pg_messages s @ [m], pg_deliveries := pg_deliveries s @ [d]\<rparr>"
    have "pg_flush_full (traced_sink sk) ch nt n (w, l) ?s = ((w', l'), r)"
      using step Incoming Inr by (simp add: pg_step_def)
    moreover have "pg_ok sk ?s" using ok Inr by (auto simp: pg_ok_def intro: list_all2_appendI)
    ultimately show ?thesis using pg_flush_full_log [of sk ch nt n w l ?s w' l' r] Incoming
      by (cases r) auto
  qed
qed

text \<open>
  The consumer keeps both contracts, for the total of any one key: \<open>stored\<close> sums what the statements
  that succeeded gave the key, \<open>weight\<close> is what a delivery's row adds to it, both in the arithmetic
  of the words.
\<close>

interpretation pg: storing_consumer "pg_step (traced_sink sk) ch nt" "\<lambda>wl. settled_in (snd wl)"
  pg_deliveries "pg_ok sk" "\<lambda>wl. acked_in (snd wl)"
  "\<lambda>wl. given_total k (stored_in (snd wl))" "day_weight sk ch k"
  for sk :: "'w pg_sink" and ch nt k
proof unfold_locales
  fix s s' :: pg_state and n and w w' :: "'w \<times> pg_upsert db_call list" and ev e
  assume ok: "pg_ok sk s"
  obtain u l u' l' where w: "w = (u, l)" "w' = (u', l')" by force
  {
    assume "pg_step (traced_sink sk) ch nt n w s ev = (w', Inr s')"
    from pg_step_log [OF ok this [unfolded w]]
    obtain es where es: "l' = l @ es" "pg_ok sk s'"
        "mset (settled_in es) + mset (pg_deliveries s') =
           mset (pg_deliveries s) + mset (arrivals [ev])"
        "length (pg_deliveries s) < max 1 n \<longrightarrow> length (pg_deliveries s') < max 1 n" by auto
    show "pg_ok sk s'" using es(2) .
    show "mset (settled_in (snd w')) + mset (pg_deliveries s') =
        mset (settled_in (snd w)) + mset (pg_deliveries s) + mset (arrivals [ev])"
      using es(1,3) w by (simp add: add.assoc)
    show "length (pg_deliveries s) < max 1 n \<Longrightarrow> length (pg_deliveries s') < max 1 n"
      using es(4) by blast
  }
  {
    assume "pg_step (traced_sink sk) ch nt n w s ev = (w', Inl e)"
    from pg_step_log [OF ok this [unfolded w]]
    show "mset (settled_in (snd w')) \<subseteq>#
        mset (settled_in (snd w)) + mset (pg_deliveries s) + mset (arrivals [ev])"
      using w by (auto simp: add.assoc)
  }
  {
    assume "pg_step (traced_sink sk) ch nt n w s Tick = (w', Inr s')"
    from pg_step_log [OF ok this [unfolded w]] show "pg_deliveries s' = []" by auto
  }
  obtain v j r where st: "pg_step (traced_sink sk) ch nt n (u, l) s ev = ((v, j), r)"
    by (metis surj_pair)
  from pg_step_log [OF ok st] obtain es where es: "j = l @ es" "day_log_ok sk ch es"
    using day_log_conforms by blast
  have "fst (pg_step (traced_sink sk) ch nt n w s ev) = (v, j)" using st w by simp
  moreover have "given_total k (stored_in es) = sum_list (map (day_weight sk ch k) (acked_in es))"
    using es(2) unfolding day_log_ok_def by blast
  ultimately show "\<exists>more. acked_in (snd (fst (pg_step (traced_sink sk) ch nt n w s ev))) =
        acked_in (snd w) @ more \<and>
      given_total k (stored_in (snd (fst (pg_step (traced_sink sk) ch nt n w s ev)))) =
        given_total k (stored_in (snd w)) + sum_list (map (day_weight sk ch k) more)"
    using w es(1) by auto
qed

end
