(* ===== verification/Consumer_Life.thy ===== *)
theory Consumer_Life
  imports Consumer_Mysql Consumer_Postgres
begin

text \<open>
  What keeps a consumer running: the contract of \<open>Consumer_Core\<close> extended by progress. As long as the
  channel neither closes nor fails and no delivery is of the kind that panics, every step returns to
  the loop, so a tick leaves nothing unsettled; and a run ends in a panic only by such a delivery or
  by an interval of zero seconds.
\<close>

section \<open>The contract of progress\<close>

text \<open>An event that does not end the loop by itself, with \<open>fine\<close> deliveries.\<close>

fun calm :: "(delivery \<Rightarrow> bool) \<Rightarrow> consumer_event \<Rightarrow> bool" where
  "calm fine Closed = False"
| "calm fine (Channel_Error e) = False"
| "calm fine (Incoming d) = fine d"
| "calm fine Tick = True"

text \<open>An event that ends the loop.\<close>

fun ends :: "consumer_event \<Rightarrow> bool" where
  "ends Closed = True"
| "ends (Channel_Error e) = True"
| "ends (Incoming d) = False"
| "ends Tick = False"

locale live_consumer = batch_consumer +
  fixes fine :: "delivery \<Rightarrow> bool"
    and good :: "'b \<Rightarrow> bool"
  assumes good_ok: "good s \<Longrightarrow> ok s"
    and step_good: "good s \<Longrightarrow> step n w s ev = (w', Inr s') \<Longrightarrow>
        \<forall>d \<in> set (arrivals [ev]). fine d \<Longrightarrow> good s'"
    and step_progress: "good s \<Longrightarrow> calm fine ev \<Longrightarrow> \<exists>w' s'. step n w s ev = (w', Inr s')"
    and step_panic: "good s \<Longrightarrow> \<forall>d \<in> set (arrivals [ev]). fine d \<Longrightarrow>
        step n w s ev \<noteq> (w', Inl Run_Panicked)"
    and step_ends: "ends ev \<Longrightarrow> \<exists>w' e. step n w s ev = (w', Inl e)"
begin

lemma calm_arrivals: "calm fine ev \<Longrightarrow> \<forall>d \<in> set (arrivals [ev]). fine d"
  by (cases ev) auto

lemma run_progress:
  "good s \<Longrightarrow> \<forall>ev \<in> set evs. calm fine ev \<Longrightarrow>
   \<exists>w' s'. consume (step n) w s evs = (w', Inr s') \<and> good s'"
proof (induction evs arbitrary: w s)
  case (Cons ev evs)
  from Cons.prems obtain w1 s1 where st: "step n w s ev = (w1, Inr s1)"
    using step_progress [of s ev n w] by auto
  moreover have "good s1"
    using step_good [OF Cons.prems(1) st] calm_arrivals [of ev] Cons.prems(2) by simp
  ultimately show ?case using Cons.IH [of s1 w1] Cons.prems(2) by simp
qed simp

lemma consume_append:
  "consume (step n) w s (evs @ fs) =
     (case consume (step n) w s evs of
        (w', Inl e) \<Rightarrow> (w', Inl e)
      | (w', Inr s') \<Rightarrow> consume (step n) w' s' fs)"
  by (induction evs arbitrary: w s) (auto split: prod.split sum.split)

text \<open>A tick settles everything that came before it.\<close>

lemma run_tick:
  assumes "good s" and "\<forall>ev \<in> set evs. calm fine ev"
  shows "\<exists>w' s'. consume (step n) w s (evs @ [Tick]) = (w', Inr s') \<and> good s' \<and> pending s' = [] \<and>
    mset (settled w') = mset (settled w) + mset (pending s) + mset (arrivals evs)"
proof -
  from run_progress [OF assms] obtain w1 s1 where
    run: "consume (step n) w s evs = (w1, Inr s1)" and g1: "good s1" by blast
  obtain w2 s2 where st: "step n w1 s1 Tick = (w2, Inr s2)"
    using step_progress [OF g1, of Tick n w1] by auto
  have "good s2" using step_good [OF g1 st] by simp
  moreover have empty: "pending s2 = []" using step_tick [OF good_ok [OF g1] st] .
  moreover have "mset (settled w2) = mset (settled w1) + mset (pending s1)"
    using step_accounts [OF good_ok [OF g1] st] empty by simp
  moreover have "mset (settled w1) + mset (pending s1) =
      mset (settled w) + mset (pending s) + mset (arrivals evs)"
    using run_accounts [OF good_ok [OF assms(1)] run] by blast
  ultimately show ?thesis
    using run st by (intro exI [of _ w2] exI [of _ s2]) (simp add: consume_append)
qed

lemma run_no_panic:
  "good s \<Longrightarrow> \<forall>d \<in> set (arrivals evs). fine d \<Longrightarrow> consume (step n) w s evs \<noteq> (w', Inl Run_Panicked)"
proof (induction evs arbitrary: w s)
  case (Cons ev evs)
  obtain w1 r where st: "step n w s ev = (w1, r)" by force
  have fine1: "\<forall>d \<in> set (arrivals [ev]). fine d" and rest: "\<forall>d \<in> set (arrivals evs). fine d"
    using Cons.prems(2) by (cases ev; auto)+
  show ?case
  proof (cases r)
    case (Inl e)
    with st step_panic [OF Cons.prems(1) fine1, of n w w1] show ?thesis by auto
  next
    case (Inr s1)
    with st step_good [OF Cons.prems(1) _ fine1] have "good s1" by blast
    with Cons.IH [OF this rest, of w1] st Inr show ?thesis by simp
  qed
qed simp

text \<open>A run whose channel ends is over, and not by a panic.\<close>

lemma run_over:
  "good s \<Longrightarrow> \<forall>d \<in> set (arrivals evs). fine d \<Longrightarrow> ev \<in> set evs \<Longrightarrow> ends ev \<Longrightarrow>
   \<exists>w' e. consume (step n) w s evs = (w', Inl e) \<and> e \<noteq> Run_Panicked"
proof (induction evs arbitrary: w s)
  case (Cons f evs)
  obtain w1 r where st: "step n w s f = (w1, r)" by force
  have fine1: "\<forall>d \<in> set (arrivals [f]). fine d" and rest: "\<forall>d \<in> set (arrivals evs). fine d"
    using Cons.prems(2) by (cases f; auto)+
  show ?case
  proof (cases r)
    case (Inl e)
    with st step_panic [OF Cons.prems(1) fine1, of n w w1] show ?thesis by auto
  next
    case (Inr s1)
    with st have "\<not> ends f" using step_ends [of f n w s] by auto
    with Cons.prems(3,4) have "ev \<in> set evs" by auto
    moreover have "good s1" using st Inr step_good [OF Cons.prems(1) _ fine1] by blast
    ultimately show ?thesis using Cons.IH [of s1 w1] rest Cons.prems(4) st Inr by simp
  qed
qed simp

end

section \<open>The MySQL consumer\<close>

text \<open>Data that is no message, or a message that converts to a row or to none.\<close>

definition mysql_fine :: "('w, 'k, 'q) sink \<Rightarrow> delivery \<Rightarrow> bool" where
  "mysql_fine sk d \<longleftrightarrow> (\<forall>m. from_slice sk (dl_data d) = Inr m \<longrightarrow> to_kicc_row m \<noteq> Panic)"

lemma mysql_fine_traced [simp]: "mysql_fine (traced_sink sk) = mysql_fine sk"
  by (simp add: mysql_fine_def fun_eq_iff)

lemma mysql_step_returns:
  "calm (mysql_fine sk) ev \<Longrightarrow> \<exists>w' s'. mysql_step sk nt n w s ev = (w', Inr s')"
  by (cases ev)
    (auto simp: mysql_step_def mysql_fine_def map_prod_def split: sum.split rust.split option.split
      prod.split)

lemma mysql_step_panics:
  "mysql_step sk nt n w s ev = (w', Inl Run_Panicked) \<Longrightarrow>
   \<exists>d m. ev = Incoming d \<and> from_slice sk (dl_data d) = Inr m \<and> to_kicc_row m = Panic \<and> w' = w"
  by (cases ev)
    (auto simp: mysql_step_def map_prod_def split: sum.splits rust.splits option.splits prod.splits
      if_splits)

interpretation my_live: live_consumer "mysql_step (traced_sink sk) nt" "\<lambda>wl. settled_in (snd wl)"
  my_deliveries "mysql_ok sk" "mysql_fine sk" "mysql_ok sk"
  for sk :: "'w mysql_sink" and nt
proof unfold_locales
  fix s s' :: mysql_state and n and w w' :: "'w \<times> mysql_insert db_call list" and ev
  assume ok: "mysql_ok sk s"
  then show "mysql_ok sk s" .
  show "mysql_step (traced_sink sk) nt n w s ev = (w', Inr s') \<Longrightarrow> mysql_ok sk s'"
    using my.step_ok [OF ok] .
  show "calm (mysql_fine sk) ev \<Longrightarrow> \<exists>w' s'. mysql_step (traced_sink sk) nt n w s ev = (w', Inr s')"
    using mysql_step_returns [of "traced_sink sk"] by simp
  show "\<forall>d \<in> set (arrivals [ev]). mysql_fine sk d \<Longrightarrow>
      mysql_step (traced_sink sk) nt n w s ev \<noteq> (w', Inl Run_Panicked)"
    using mysql_step_panics [of "traced_sink sk" nt n w s ev w'] by (auto simp: mysql_fine_def)
next
  show "\<exists>w' e. mysql_step (traced_sink sk) nt n w s ev = (w', Inl e)" if "ends ev" for ev n w s
    using that by (cases ev) (simp_all add: mysql_step_def)
qed

section \<open>The PostgreSQL consumer\<close>

text \<open>Here the conversion, and its panic, comes with the flush: the waiting messages count.\<close>

definition pg_fine :: "('w, 'k, 'q) sink \<Rightarrow> chrono \<Rightarrow> delivery \<Rightarrow> bool" where
  "pg_fine sk ch d \<longleftrightarrow> (\<forall>m. from_slice sk (dl_data d) = Inr m \<longrightarrow> to_daily_row ch m \<noteq> Panic)"

lemma pg_fine_traced [simp]: "pg_fine (traced_sink sk) = pg_fine sk"
  by (simp add: pg_fine_def fun_eq_iff)

definition pg_good :: "('w, 'k, 'q) sink \<Rightarrow> chrono \<Rightarrow> pg_state \<Rightarrow> bool" where
  "pg_good sk ch s \<longleftrightarrow> pg_ok sk s \<and> (\<forall>m \<in> set (pg_messages s). to_daily_row ch m \<noteq> Panic)"

lemma pg_good_state0 [simp]: "pg_good sk ch pg_state0"
  by (simp add: pg_good_def)

lemma pg_good_push:
  assumes "pg_good sk ch s" and "from_slice sk (dl_data d) = Inr m" and "pg_fine sk ch d"
  shows "pg_good sk ch (s\<lparr>pg_messages := pg_messages s @ [m], pg_deliveries := pg_deliveries s @ [d]\<rparr>)"
  using assms by (auto simp: pg_good_def pg_ok_def pg_fine_def intro: list_all2_appendI)

lemma aggregate_returns:
  "\<forall>m \<in> set (map snd pairs). to_daily_row ch m \<noteq> Panic \<Longrightarrow>
   \<exists>w' gd' agg'. aggregate sk ch w pairs gd agg = (w', Ret (gd', agg'))"
proof (induction sk ch w pairs gd agg rule: aggregate.induct)
  case (2 sk ch w d msg pairs gd agg)
  then show ?case by (cases "to_daily_row ch msg") (auto split: option.split)
qed simp

lemma pg_flush_returns:
  assumes "pg_good sk ch s"
  shows "\<exists>w'. pg_flush sk2 ch nt w s = (w', Ret pg_state0)"
proof -
  have "\<forall>m \<in> set (map snd (zip (pg_deliveries s) (pg_messages s))). to_daily_row ch m \<noteq> Panic"
    using assms by (auto simp: pg_good_def dest: set_zip_rightD)
  from aggregate_returns [OF this, where sk = sk2 and w = w and gd = "[]" and agg = "[]"]
  obtain w' gd agg where
    "aggregate sk2 ch w (zip (pg_deliveries s) (pg_messages s)) [] [] = (w', Ret (gd, agg))" by blast
  then show ?thesis by (auto simp: pg_flush_def Let_def split: prod.split sum.split)
qed

lemma pg_flush_full_returns:
  assumes "pg_good sk ch s"
  shows "\<exists>w' s'. pg_flush_full sk2 ch nt n w s = (w', Inr s') \<and> pg_good sk ch s'"
proof (cases "n \<le> length (pg_messages s)")
  case True
  obtain w' where "pg_flush sk2 ch nt w s = (w', Ret pg_state0)"
    using pg_flush_returns [OF assms, of sk2 nt w] by blast
  with True show ?thesis by (simp add: pg_flush_full_def)
next
  case False
  with assms show ?thesis by (simp add: pg_flush_full_def)
qed

text \<open>From a good state a step returns to the loop, in a good state, or ends with the channel.\<close>

lemma pg_step_good:
  assumes good: "pg_good sk ch s" and fine: "\<forall>d \<in> set (arrivals [ev]). pg_fine sk ch d"
  shows "(\<exists>w' s'. pg_step (traced_sink sk) ch nt n w s ev = (w', Inr s') \<and> pg_good sk ch s') \<or>
    (\<not> calm (pg_fine sk ch) ev \<and>
     (\<exists>w' e. pg_step (traced_sink sk) ch nt n w s ev = (w', Inl e) \<and> e \<noteq> Run_Panicked))"
proof (cases ev)
  case (Incoming d)
  show ?thesis
  proof (cases "from_slice sk (dl_data d)")
    case (Inl e)
    with Incoming pg_flush_full_returns [OF good, of "traced_sink sk" nt n "settle (traced_sink sk) w d Nack_Drop"]
    show ?thesis by (simp add: pg_step_def)
  next
    case (Inr m)
    with Incoming pg_flush_full_returns [OF pg_good_push [OF good Inr], of "traced_sink sk" nt n w] fine
    show ?thesis by (simp add: pg_step_def)
  qed
next
  case Tick
  obtain w' where "pg_flush (traced_sink sk) ch nt w s = (w', Ret pg_state0)"
    using pg_flush_returns [OF good, of "traced_sink sk" nt w] by blast
  with Tick good show ?thesis by (simp add: pg_step_def)
qed (simp_all add: pg_step_def)

interpretation pg_live: live_consumer "pg_step (traced_sink sk) ch nt" "\<lambda>wl. settled_in (snd wl)"
  pg_deliveries "pg_ok sk" "pg_fine sk ch" "pg_good sk ch"
  for sk :: "'w pg_sink" and ch nt
proof unfold_locales
  fix s s' :: pg_state and n and w w' :: "'w \<times> pg_upsert db_call list" and ev
  assume good: "pg_good sk ch s"
  then show "pg_ok sk s" by (simp add: pg_good_def)
  show "pg_good sk ch s'"
    if "pg_step (traced_sink sk) ch nt n w s ev = (w', Inr s')" "\<forall>d \<in> set (arrivals [ev]). pg_fine sk ch d"
    using pg_step_good [OF good that(2), of nt n w] that(1) by auto
  show "\<exists>w' s'. pg_step (traced_sink sk) ch nt n w s ev = (w', Inr s')" if "calm (pg_fine sk ch) ev"
  proof -
    have "\<forall>d \<in> set (arrivals [ev]). pg_fine sk ch d" using that by (cases ev) auto
    with pg_step_good [OF good this, of nt n w] that show ?thesis by blast
  qed
  show "pg_step (traced_sink sk) ch nt n w s ev \<noteq> (w', Inl Run_Panicked)"
    if "\<forall>d \<in> set (arrivals [ev]). pg_fine sk ch d"
    using pg_step_good [OF good that, of nt n w] by auto
next
  show "\<exists>w' e. pg_step (traced_sink sk) ch nt n w s ev = (w', Inl e)" if "ends ev" for ev n w s
    using that by (cases ev) (simp_all add: pg_step_def)
qed

section \<open>A run from any log\<close>

text \<open>A run starts its loop with the log it found, or adds nothing to it.\<close>

lemma mysql_run_cases:
  obtains (started) w1 where "mysql_run (traced_sink sk) url q nt n secs nanos wl evs =
      consume (mysql_step (traced_sink sk) nt n) (w1, snd wl) mysql_state0 evs"
  | (failed) "snd (fst (mysql_run (traced_sink sk) url q nt n secs nanos wl evs)) = snd wl"
  unfolding mysql_run_def by (rule run_consumer_cases)

lemma pg_run_cases:
  obtains (started) w1 where "pg_run (traced_sink sk) ch url q nt n secs nanos wl evs =
      consume (pg_step (traced_sink sk) ch nt n) (w1, snd wl) pg_state0 evs"
  | (failed) "snd (fst (pg_run (traced_sink sk) ch url q nt n secs nanos wl evs)) = snd wl"
  unfolding pg_run_def by (rule run_consumer_cases)

text \<open>What the statements of a log gave the tables is what its acknowledged deliveries weigh.\<close>

definition mysql_balanced :: "('w, 'k, 'q) sink \<Rightarrow> mysql_insert db_call list \<Rightarrow> bool" where
  "mysql_balanced sk l \<longleftrightarrow> inserted_rows (stored_in l) = sum_list (map (row_weight sk) (acked_in l))"

lemma mysql_run_stores:
  assumes "mysql_balanced sk (snd wl)"
  shows "mysql_balanced sk (snd (fst (mysql_run (traced_sink sk) url q nt n secs nanos wl evs)))"
proof (cases rule: mysql_run_cases [of sk url q nt n secs nanos wl evs])
  case (started w1)
  with my.run_stores [of sk mysql_state0 "(w1, snd wl)" nt n evs] assms show ?thesis
    by (simp add: mysql_balanced_def)
qed (use assms in simp)

lemma mysql_run_received:
  "mset (settled_in (snd (fst (mysql_run (traced_sink sk) url q nt n secs nanos wl evs)))) \<subseteq>#
   mset (settled_in (snd wl)) + mset (arrivals evs)"
proof (cases rule: mysql_run_cases [of sk url q nt n secs nanos wl evs])
  case (started w1)
  with my.run_settles_received [of sk mysql_state0 nt n "(w1, snd wl)" evs] show ?thesis by simp
qed (simp add: subset_mset.add_increasing2)

lemma pg_run_received:
  "mset (settled_in (snd (fst (pg_run (traced_sink sk) ch url q nt n secs nanos wl evs)))) \<subseteq>#
   mset (settled_in (snd wl)) + mset (arrivals evs)"
proof (cases rule: pg_run_cases [of sk ch url q nt n secs nanos wl evs])
  case (started w1)
  with pg.run_settles_received [of sk pg_state0 ch nt n "(w1, snd wl)" evs] show ?thesis by simp
qed (simp add: subset_mset.add_increasing2)

text \<open>A run goes on giving each verdict for a reason.\<close>

lemma mysql_run_justified:
  assumes "justified (carries_row sk) (settled_unstored sk) [] (snd wl)"
  shows "justified (carries_row sk) (settled_unstored sk) []
    (snd (fst (mysql_run (traced_sink sk) url q nt n secs nanos wl evs)))"
proof (cases rule: mysql_run_cases [of sk url q nt n secs nanos wl evs])
  case (started w1)
  let ?P = "\<lambda>wl. justified (carries_row sk) (settled_unstored sk) [] (snd wl)"
  have step: "?P (fst (mysql_step (traced_sink sk) nt n wl s ev))" if "mysql_ok sk s" "?P wl" for wl s ev
  proof -
    obtain v k v' k' x where st: "wl = (v, k)"
      "mysql_step (traced_sink sk) nt n (v, k) s ev = ((v', k'), x)" by (metis surj_pair)
    from mysql_step_log [OF that(1) st(2)] that(2) st show ?thesis
      by (auto simp: log_ok_def intro: justified_append)
  qed
  show ?thesis
    using my.run_invariant [where P = ?P and sk = sk and nt = nt and n = n and s = mysql_state0
        and w = "(w1, snd wl)" and evs = evs, OF step] assms started by simp
qed (use assms in simp)

lemma pg_run_justified:
  assumes "justified (carries_day sk ch) (day_unstored sk ch) [] (snd wl)"
  shows "justified (carries_day sk ch) (day_unstored sk ch) []
    (snd (fst (pg_run (traced_sink sk) ch url q nt n secs nanos wl evs)))"
proof (cases rule: pg_run_cases [of sk ch url q nt n secs nanos wl evs])
  case (started w1)
  let ?P = "\<lambda>wl. justified (carries_day sk ch) (day_unstored sk ch) [] (snd wl)"
  have step: "?P (fst (pg_step (traced_sink sk) ch nt n wl s ev))" if "pg_ok sk s" "?P wl" for wl s ev
  proof -
    obtain v k v' k' x where st: "wl = (v, k)"
      "pg_step (traced_sink sk) ch nt n (v, k) s ev = ((v', k'), x)" by (metis surj_pair)
    from pg_step_log [OF that(1) st(2)] obtain es where "k' = k @ es" "day_log_ok sk ch es"
      using day_log_conforms by blast
    with that(2) st show ?thesis by (auto simp: day_log_ok_def intro: justified_append)
  qed
  show ?thesis
    using pg.run_invariant [where P = ?P and sk = sk and ch = ch and nt = nt and n = n and s = pg_state0
        and w = "(w1, snd wl)" and evs = evs, OF step] assms started by simp
qed (use assms in simp)

text \<open>A panic of a run: an interval of zero, or a delivery that is not fine.\<close>

lemma run_consumer_panic:
  "run_consumer sk qs secs step s0 w evs = (w', Inl Run_Panicked) \<Longrightarrow>
   secs = 0 \<or> (\<exists>w1. consume step w1 s0 evs = (w', Inl Run_Panicked))"
  by (auto simp: run_consumer_def split: prod.splits sum.splits if_splits)

lemma mysql_run_panic:
  assumes "mysql_run (traced_sink sk) url q nt n secs nanos wl evs = (wl', Inl Run_Panicked)"
  shows "secs = 0 \<or> (\<exists>d \<in> set (arrivals evs). \<not> mysql_fine sk d)"
  using run_consumer_panic [OF assms [unfolded mysql_run_def]]
    my_live.run_no_panic [of sk mysql_state0 evs nt n _ wl'] by fastforce

lemma pg_run_panic:
  assumes "pg_run (traced_sink sk) ch url q nt n secs nanos wl evs = (wl', Inl Run_Panicked)"
  shows "secs = 0 \<or> (\<exists>d \<in> set (arrivals evs). \<not> pg_fine sk ch d)"
  using run_consumer_panic [OF assms [unfolded pg_run_def]]
    pg_live.run_no_panic [of sk ch pg_state0 evs nt n _ wl'] by fastforce

end
