(* ===== verification/Logger.thy ===== *)
theory Logger
  imports Rust_Str
begin

text \<open>
  \<open>src/src/logger.rs\<close>: the log is one file per hour, in directories of the year, the month and the
  day. The file system is a parameter over the world, a stamp is what \<open>Local::now\<close> gives. At the end
  the calls of a run of writes are compared with their specification.
\<close>

section \<open>Stamps and paths\<close>

record stamp =
  year :: int
  month :: nat
  day :: nat
  hour :: nat

type_synonym path = rstr

text \<open>\<open>i32::to_string\<close>.\<close>

definition int_str :: "int \<Rightarrow> rstr" where
  "int_str i = (if i < 0 then 45 # dec_str (nat (- i)) else dec_str (nat i))"

text \<open>\<open>Path::join\<close> with a relative component: a slash between, unless there is one or nothing.\<close>

definition path_join :: "path \<Rightarrow> rstr \<Rightarrow> path" where
  "path_join p c = (if p = [] \<or> last p = 47 then p @ c else p @ 47 # c)"

definition log_dir :: "path \<Rightarrow> stamp \<Rightarrow> path" where
  "log_dir base t =
     path_join (path_join (path_join base (int_str (year t))) (dec_str (month t))) (dec_str (day t))"

definition log_path :: "path \<Rightarrow> stamp \<Rightarrow> path" where
  "log_path base t = path_join (log_dir base t) (dec_str (hour t) @ lit ''.log'')"

section \<open>The writer\<close>

record ('w, 'f) file_system =
  create_dir_all :: "'w \<Rightarrow> path \<Rightarrow> 'w \<times> (rstr + unit)"
  open_append :: "'w \<Rightarrow> path \<Rightarrow> 'w \<times> (rstr + 'f)"
  write_file :: "'w \<Rightarrow> 'f \<Rightarrow> bytes \<Rightarrow> 'w \<times> (rstr + nat)"
  flush_file :: "'w \<Rightarrow> 'f \<Rightarrow> 'w \<times> (rstr + unit)"

record 'f inner =
  in_file :: 'f
  in_stamp :: stamp

record 'f hourly_writer =
  wr_base :: path
  wr_inner :: "'f inner"

definition inner_open ::
  "('w, 'f) file_system \<Rightarrow> 'w \<Rightarrow> path \<Rightarrow> stamp \<Rightarrow> 'w \<times> (rstr + 'f inner)" where
  "inner_open fs w base t =
     (case create_dir_all fs w (log_dir base t) of
        (w1, Inl e) \<Rightarrow> (w1, Inl e)
      | (w1, Inr _) \<Rightarrow>
          (case open_append fs w1 (log_path base t) of
             (w2, Inl e) \<Rightarrow> (w2, Inl e)
           | (w2, Inr f) \<Rightarrow> (w2, Inr \<lparr> in_file = f, in_stamp = t \<rparr>)))"

definition writer_new ::
  "('w, 'f) file_system \<Rightarrow> stamp \<Rightarrow> 'w \<Rightarrow> path \<Rightarrow> 'w \<times> (rstr + 'f hourly_writer)" where
  "writer_new fs now w base =
     (case inner_open fs w base now of
        (w1, Inl e) \<Rightarrow> (w1, Inl e)
      | (w1, Inr i) \<Rightarrow> (w1, Inr \<lparr> wr_base = base, wr_inner = i \<rparr>))"

text \<open>
  The four fields of the stamp are compared; when the new file does not open, the old one stays. A
  poisoned lock is entered all the same, so the mutex only orders the writes.
\<close>

definition writer_write ::
  "('w, 'f) file_system \<Rightarrow> stamp \<Rightarrow> 'w \<Rightarrow> 'f hourly_writer \<Rightarrow> bytes \<Rightarrow>
   'w \<times> 'f hourly_writer \<times> (rstr + nat)" where
  "writer_write fs now w wr buf =
     (let i = wr_inner wr;
          (w1, i1) =
            (if year (in_stamp i) \<noteq> year now \<or> month (in_stamp i) \<noteq> month now \<or>
                day (in_stamp i) \<noteq> day now \<or> hour (in_stamp i) \<noteq> hour now
             then (case inner_open fs w (wr_base wr) now of
                     (w1, Inr i1) \<Rightarrow> (w1, i1)
                   | (w1, Inl e) \<Rightarrow> (w1, i))
             else (w, i))
      in (case write_file fs w1 (in_file i1) buf of
            (w2, r) \<Rightarrow> (w2, wr\<lparr>wr_inner := i1\<rparr>, r)))"

definition writer_flush ::
  "('w, 'f) file_system \<Rightarrow> 'w \<Rightarrow> 'f hourly_writer \<Rightarrow> 'w \<times> (rstr + unit)" where
  "writer_flush fs w wr = flush_file fs w (in_file (wr_inner wr))"

fun log_run ::
  "('w, 'f) file_system \<Rightarrow> 'w \<Rightarrow> 'f hourly_writer \<Rightarrow> (stamp \<times> bytes) list \<Rightarrow> 'w \<times> 'f hourly_writer" where
  "log_run fs w wr [] = (w, wr)"
| "log_run fs w wr ((now, buf) # lines) =
     (case writer_write fs now w wr buf of (w', wr', r) \<Rightarrow> log_run fs w' wr' lines)"

lemma stamp_eq_iff:
  "(year s \<noteq> year t \<or> month s \<noteq> month t \<or> day s \<noteq> day t \<or> hour s \<noteq> hour t) \<longleftrightarrow> (s :: stamp) \<noteq> t"
  by (cases s; cases t) auto

lemma writer_write_same:
  "in_stamp (wr_inner wr) = now \<Longrightarrow>
   writer_write fs now w wr buf =
     (case write_file fs w (in_file (wr_inner wr)) buf of (w2, r) \<Rightarrow> (w2, wr, r))"
  by (auto simp: writer_write_def Let_def split: prod.split)

lemma writer_write_new:
  assumes "in_stamp (wr_inner wr) \<noteq> now" and "inner_open fs w (wr_base wr) now = (w1, a)"
  shows "writer_write fs now w wr buf =
    (let i1 = (case a of Inr i \<Rightarrow> i | Inl _ \<Rightarrow> wr_inner wr) in
     case write_file fs w1 (in_file i1) buf of (w2, r) \<Rightarrow> (w2, wr\<lparr>wr_inner := i1\<rparr>, r))"
  using assms(2) assms(1) [folded stamp_eq_iff]
  by (simp add: writer_write_def Let_def split: sum.split del: de_Morgan_conj)

section \<open>Paths of different hours differ\<close>

lemma dec_str_inject [simp]: "dec_str m = dec_str n \<longleftrightarrow> m = n"
  by (metis digits_val_dec_str option.inject)

lemma dec_str_no_char: "\<not> is_digit_char c \<Longrightarrow> c \<notin> set (dec_str n)"
  using dec_str_digits by blast

lemma dec_str_no_minus: "45 # s \<noteq> dec_str n"
  using dec_str_no_char [of 45 n] by (auto simp: is_digit_char_def) (metis list.set_intros(1))

lemma int_str_inject [simp]: "int_str i = int_str j \<longleftrightarrow> i = j"
proof
  assume "int_str i = int_str j"
  then show "i = j"
    using dec_str_no_minus [of "dec_str (nat (- i))" "nat j"] dec_str_no_minus [of "dec_str (nat (- j))" "nat i"]
    by (cases "i < 0"; cases "j < 0") (auto simp: int_str_def)
qed simp

lemma no_slash [simp]: "47 \<notin> set (dec_str n)" "47 \<notin> set (int_str i)" "int_str i \<noteq> []"
  by (simp_all add: int_str_def dec_str_no_char is_digit_char_def)

lemma last_dec_str [simp]: "last (dec_str n) \<noteq> 47" "last (int_str i) \<noteq> 47"
  using no_slash last_in_set dec_str_nonempty by metis+

text \<open>The part before the first of two equal separators is the same.\<close>

lemma split_at_separator:
  "a \<notin> set xs \<Longrightarrow> a \<notin> set ys \<Longrightarrow> xs @ a # us = ys @ a # vs \<longleftrightarrow> xs = ys \<and> us = vs"
proof (induction xs arbitrary: ys)
  case Nil
  then show ?case by (cases ys) auto
next
  case (Cons x xs)
  then show ?case by (cases ys) auto
qed

definition path_tail :: "stamp \<Rightarrow> rstr" where
  "path_tail t =
     int_str (year t) @ 47 # dec_str (month t) @ 47 # dec_str (day t) @ 47 # dec_str (hour t) @ lit ''.log''"

lemma log_path_tail:
  "\<exists>b. \<forall>t. log_path base t = b @ path_tail t"
proof (cases "base = [] \<or> last base = 47")
  case True
  then show ?thesis
    by (intro exI [of _ base]) (simp add: log_path_def log_dir_def path_join_def path_tail_def)
next
  case False
  then show ?thesis
    by (intro exI [of _ "base @ [47]"])
      (simp add: log_path_def log_dir_def path_join_def path_tail_def)
qed

lemma path_tail_inject: "path_tail s = path_tail t \<longleftrightarrow> s = t"
proof
  assume "path_tail s = path_tail t"
  then show "s = t"
    by (cases s; cases t) (simp add: path_tail_def split_at_separator)
qed simp

lemma log_path_eq_iff: "log_path base s = log_path base t \<longleftrightarrow> s = t"
  using log_path_tail [of base] path_tail_inject by (metis same_append_eq)

section \<open>The calls of a run\<close>

datatype file_call = Made path | Opened path | Wrote path bytes

text \<open>A file system that records its calls; \<open>path_of\<close> tells which file a handle is of.\<close>

definition traced_files ::
  "('w, 'f) file_system \<Rightarrow> ('f \<Rightarrow> path) \<Rightarrow> ('w \<times> file_call list, 'f) file_system" where
  "traced_files fs path_of =
     \<lparr> create_dir_all = (\<lambda>(w, l) p. (case create_dir_all fs w p of (w', r) \<Rightarrow> ((w', l @ [Made p]), r))),
       open_append = (\<lambda>(w, l) p. (case open_append fs w p of (w', r) \<Rightarrow> ((w', l @ [Opened p]), r))),
       write_file = (\<lambda>(w, l) f b. (case write_file fs w f b of
                                     (w', r) \<Rightarrow> ((w', l @ [Wrote (path_of f) b]), r))),
       flush_file = (\<lambda>(w, l) f. (case flush_file fs w f of (w', r) \<Rightarrow> ((w', l), r))) \<rparr>"

lemma traced_write:
  "write_file (traced_files fs path_of) (w, l) f b = ((w', l'), r) \<Longrightarrow> l' = l @ [Wrote (path_of f) b]"
  by (auto simp: traced_files_def split: prod.splits)

text \<open>The specification: a new hour makes its directory and opens its file, then the line is written.\<close>

fun hourly_calls :: "path \<Rightarrow> stamp \<Rightarrow> (stamp \<times> bytes) list \<Rightarrow> file_call list" where
  "hourly_calls base cur [] = []"
| "hourly_calls base cur ((now, buf) # lines) =
     (if now = cur then [] else [Made (log_dir base now), Opened (log_path base now)]) @
     Wrote (log_path base now) buf # hourly_calls base now lines"

text \<open>A handle is of the path it was opened with; \<open>working\<close> says that directories and files open.\<close>

definition names_files :: "('w, 'f) file_system \<Rightarrow> ('f \<Rightarrow> path) \<Rightarrow> bool" where
  "names_files fs path_of \<longleftrightarrow> (\<forall>w p w' f. open_append fs w p = (w', Inr f) \<longrightarrow> path_of f = p)"

definition working :: "('w, 'f) file_system \<Rightarrow> bool" where
  "working fs \<longleftrightarrow>
     (\<forall>w p. \<exists>w'. create_dir_all fs w p = (w', Inr ())) \<and> (\<forall>w p. \<exists>w' f. open_append fs w p = (w', Inr f))"

text \<open>The file of a writer is that of its stamp.\<close>

definition writer_ok :: "('f \<Rightarrow> path) \<Rightarrow> 'f hourly_writer \<Rightarrow> bool" where
  "writer_ok path_of wr \<longleftrightarrow> path_of (in_file (wr_inner wr)) = log_path (wr_base wr) (in_stamp (wr_inner wr))"

lemma inner_open_traced:
  assumes "inner_open (traced_files fs path_of) (w, l) base t = ((w', l'), r)"
    and "names_files fs path_of"
  shows "(\<exists>m. l' = l @ m \<and> m \<in> {[Made (log_dir base t)], [Made (log_dir base t), Opened (log_path base t)]}) \<and>
    (\<forall>i. r = Inr i \<longrightarrow> in_stamp i = t \<and> path_of (in_file i) = log_path base t \<and>
       l' = l @ [Made (log_dir base t), Opened (log_path base t)]) \<and>
    (working fs \<longrightarrow> (\<exists>i. r = Inr i))"
proof -
  obtain w1 a where mk: "create_dir_all fs w (log_dir base t) = (w1, a)" by force
  obtain w2 b where op: "open_append fs w1 (log_path base t) = (w2, b)" by force
  have named: "path_of f = log_path base t" if "b = Inr f" for f
    using assms(2) op that unfolding names_files_def by blast
  have works: "\<exists>f. b = Inr f" "a = Inr ()" if "working fs"
    using that mk op unfolding working_def by (metis prod.inject)+
  show ?thesis
    using assms(1) mk op named works
    by (cases a; cases b) (auto simp: inner_open_def traced_files_def)
qed

text \<open>One write: the writer stays in order, and one line is written, to the file of its stamp.\<close>

lemma writer_write_traced:
  assumes "writer_write (traced_files fs path_of) now (w, l) wr buf = ((w', l'), wr', r)"
    and names: "names_files fs path_of" and ok: "writer_ok path_of wr"
  shows "writer_ok path_of wr' \<and> wr_base wr' = wr_base wr \<and>
    in_stamp (wr_inner wr') \<in> {now, in_stamp (wr_inner wr)} \<and>
    (\<exists>m. l' = l @ m @ [Wrote (log_path (wr_base wr) (in_stamp (wr_inner wr'))) buf] \<and>
       (\<forall>c \<in> set m. \<forall>p b. c \<noteq> Wrote p b)) \<and>
    (working fs \<longrightarrow> in_stamp (wr_inner wr') = now \<and>
       l' = l @ hourly_calls (wr_base wr) (in_stamp (wr_inner wr)) [(now, buf)])"
proof (cases "in_stamp (wr_inner wr) = now")
  case True
  obtain w2 l2 b where wf: "write_file (traced_files fs path_of) (w, l) (in_file (wr_inner wr)) buf =
      ((w2, l2), b)" by (metis surj_pair)
  with True assms(1) have "wr' = wr" "l' = l2" by (simp_all add: writer_write_same)
  with traced_write [OF wf] True ok show ?thesis by (auto simp: writer_ok_def)
next
  case False
  obtain w1 l1 a where op: "inner_open (traced_files fs path_of) (w, l) (wr_base wr) now = ((w1, l1), a)"
    by (metis surj_pair)
  note open_facts = inner_open_traced [OF op names]
  from open_facts obtain m where m: "l1 = l @ m" "\<forall>c \<in> set m. \<forall>p b. c \<noteq> Wrote p b" by auto
  let ?i = "case a of Inr i \<Rightarrow> i | Inl _ \<Rightarrow> wr_inner wr"
  obtain w2 l2 b where wf: "write_file (traced_files fs path_of) (w1, l1) (in_file ?i) buf = ((w2, l2), b)"
    by (metis surj_pair)
  with assms(1) have wr': "wr' = wr\<lparr>wr_inner := ?i\<rparr>" "l' = l2"
    by (simp_all add: writer_write_new [OF False op] Let_def)
  note l2 = traced_write [OF wf]
  show ?thesis
  proof (cases a)
    case (Inl e)
    with open_facts have "\<not> working fs" by auto
    with Inl wr' l2 m ok show ?thesis by (auto simp: writer_ok_def)
  next
    case (Inr i)
    with open_facts have i: "in_stamp i = now" "path_of (in_file i) = log_path (wr_base wr) now"
      "l1 = l @ [Made (log_dir (wr_base wr) now), Opened (log_path (wr_base wr) now)]" by auto
    with Inr wr' l2 False show ?thesis by (auto simp: writer_ok_def)
  qed
qed

text \<open>A run: in order, and to the letter when the files open.\<close>

lemma hourly_calls_Cons:
  "hourly_calls base cur (x # lines) = hourly_calls base cur [x] @ hourly_calls base (fst x) lines"
  by (cases x) simp

fun written :: "file_call list \<Rightarrow> bytes list" where
  "written [] = []"
| "written (Wrote p b # l) = b # written l"
| "written (_ # l) = written l"

lemma written_append [simp]: "written (l @ m) = written l @ written m"
  by (induction l rule: written.induct) simp_all

lemma written_none: "\<forall>c \<in> set m. \<forall>p b. c \<noteq> Wrote p b \<Longrightarrow> written m = []"
  by (induction m rule: written.induct) auto

lemma log_run_traced:
  assumes "log_run (traced_files fs path_of) (w, l) wr lines = ((w', l'), wr')"
    and "names_files fs path_of" and "writer_ok path_of wr"
  shows "writer_ok path_of wr' \<and> wr_base wr' = wr_base wr \<and> written l' = written l @ map snd lines \<and>
    (\<forall>p b. Wrote p b \<in> set l' - set l \<longrightarrow>
       (\<exists>t \<in> insert (in_stamp (wr_inner wr)) (fst ` set lines). p = log_path (wr_base wr) t)) \<and>
    (working fs \<longrightarrow> l' = l @ hourly_calls (wr_base wr) (in_stamp (wr_inner wr)) lines)"
  using assms
proof (induction lines arbitrary: w l wr)
  case Nil
  then show ?case by simp
next
  case (Cons x lines)
  obtain now buf where x: "x = (now, buf)" by force
  obtain w1 l1 wr1 r where wr1: "writer_write (traced_files fs path_of) now (w, l) wr buf = ((w1, l1), wr1, r)"
    by (metis surj_pair)
  note one = writer_write_traced [OF wr1 Cons.prems(2,3)]
  then obtain m where m: "l1 = l @ m @ [Wrote (log_path (wr_base wr) (in_stamp (wr_inner wr1))) buf]"
    "\<forall>c \<in> set m. \<forall>p b. c \<noteq> Wrote p b" by blast
  have "log_run (traced_files fs path_of) (w1, l1) wr1 lines = ((w', l'), wr')"
    using Cons.prems(1) x wr1 by simp
  from Cons.IH [OF this Cons.prems(2)] one
  have IH: "writer_ok path_of wr' \<and> wr_base wr' = wr_base wr" "written l' = written l1 @ map snd lines"
    "\<forall>p b. Wrote p b \<in> set l' - set l1 \<longrightarrow>
       (\<exists>t \<in> insert (in_stamp (wr_inner wr1)) (fst ` set lines). p = log_path (wr_base wr) t)"
    "working fs \<longrightarrow> l' = l1 @ hourly_calls (wr_base wr) (in_stamp (wr_inner wr1)) lines" by auto
  have "written l' = written l @ map snd (x # lines)"
    using IH(2) m x by (simp add: written_none)
  moreover have "\<exists>t \<in> insert (in_stamp (wr_inner wr)) (fst ` set (x # lines)). p = log_path (wr_base wr) t"
    if "Wrote p b \<in> set l' - set l" for p b
  proof (cases "Wrote p b \<in> set l1")
    case True
    with that m have "p = log_path (wr_base wr) (in_stamp (wr_inner wr1))" by auto
    with one x show ?thesis by auto
  next
    case False
    with that IH(3) obtain t where "t \<in> insert (in_stamp (wr_inner wr1)) (fst ` set lines)"
      "p = log_path (wr_base wr) t" by auto
    with one x show ?thesis by auto
  qed
  moreover have "working fs \<longrightarrow> l' = l @ hourly_calls (wr_base wr) (in_stamp (wr_inner wr)) (x # lines)"
    using one IH(4) hourly_calls_Cons [of "wr_base wr" "in_stamp (wr_inner wr)" x lines] x by auto
  ultimately show ?case using IH(1) by blast
qed

end
