(* ===== verification/Programs.thy ===== *)
theory Programs
  imports Startup Consumer_Life Logger
begin

text \<open>
  The three programs from their first line to their loops: \<open>main\<close> of \<open>src/src/main.rs\<close> and of the two
  files under \<open>src/src/bin/\<close>. A start is a sequence of steps of which each can end the program; then a
  consumer runs again and again, and the receiver serves while its TCP listener is restarted. The
  results of opening the log, the pool, Redis and the HTTP port are parameters. \<open>main\<close> is
  modelled from the log on; loading the \<open>.env\<close> file before it is a section of its own.
\<close>

section \<open>The consumers\<close>

text \<open>
  One run per session: the time of its start and what the channel delivers. A run that ended, well or
  badly, is followed by a pause of five seconds and the next; a panic unwinds \<open>main\<close>. \<open>Running\<close> is a
  run whose events are not over.
\<close>

type_synonym session = "nat \<times> consumer_event list"

datatype 's service = Running 's | Between_Runs | Crashed

datatype 's program = Exit_Error | Exit_Panic | Service 's

fun supervise ::
  "('w \<Rightarrow> session \<Rightarrow> 'w \<times> (consumer_end + 's)) \<Rightarrow> 'w \<Rightarrow> session list \<Rightarrow> 'w \<times> 's service" where
  "supervise run w [] = (w, Between_Runs)"
| "supervise run w (x # xs) =
     (case run w x of
        (w', Inr s) \<Rightarrow> (w', Running s)
      | (w', Inl Run_Panicked) \<Rightarrow> (w', Crashed)
      | (w', Inl Run_Ok) \<Rightarrow> supervise run w' xs
      | (w', Inl (Run_Err e)) \<Rightarrow> supervise run w' xs)"

definition mysql_session ::
  "'w mysql_sink \<Rightarrow> config \<Rightarrow> 'w \<Rightarrow> session \<Rightarrow> 'w \<times> (consumer_end + mysql_state)" where
  "mysql_session sk cfg w x =
     mysql_run sk (rabbitmq_url cfg) (mysql_queue cfg) (config_notifier cfg)
       (mysql_batch_size cfg) (mysql_batch_interval_secs cfg) (fst x) w (snd x)"

definition pg_session ::
  "'w pg_sink \<Rightarrow> chrono \<Rightarrow> config \<Rightarrow> 'w \<Rightarrow> session \<Rightarrow> 'w \<times> (consumer_end + pg_state)" where
  "pg_session sk ch cfg w x =
     pg_run sk ch (rabbitmq_url cfg) (postgres_queue cfg) (config_notifier cfg)
       (pgsql_batch_size cfg) (pgsql_batch_interval_secs cfg) (fst x) w (snd x)"

definition mysql_main ::
  "'w mysql_sink \<Rightarrow> (path \<Rightarrow> rstr + unit) \<Rightarrow> (rstr \<Rightarrow> nat \<Rightarrow> db_error + unit) \<Rightarrow> vars \<Rightarrow> 'w \<Rightarrow> session list \<Rightarrow>
   'w \<times> mysql_state service program" where
  "mysql_main sk open_log pool vs w sessions =
     (case open_log (lit ''/var/www/log/consumer-mysql'') of
        Inl e \<Rightarrow> (w, Exit_Error)
      | Inr _ \<Rightarrow>
          (case from_env vs of
             Panic \<Rightarrow> (w, Exit_Panic)
           | Ret cfg \<Rightarrow>
               (case pool (mysql_url cfg) 10 of
                  Inl e \<Rightarrow> (w, Exit_Error)
                | Inr _ \<Rightarrow>
                    map_prod id Service (supervise (mysql_session sk cfg) w sessions))))"

definition pg_main ::
  "'w pg_sink \<Rightarrow> chrono \<Rightarrow> (path \<Rightarrow> rstr + unit) \<Rightarrow> (rstr \<Rightarrow> nat \<Rightarrow> db_error + unit) \<Rightarrow> vars \<Rightarrow> 'w \<Rightarrow>
   session list \<Rightarrow> 'w \<times> pg_state service program" where
  "pg_main sk ch open_log pool vs w sessions =
     (case open_log (lit ''/var/www/log/consumer-postgres'') of
        Inl e \<Rightarrow> (w, Exit_Error)
      | Inr _ \<Rightarrow>
          (case bind_rust (from_env vs) (\<lambda>cfg. bind_rust (postgres_consumer_url cfg) (\<lambda>u. Ret (cfg, u))) of
             Panic \<Rightarrow> (w, Exit_Panic)
           | Ret (cfg, pg_url) \<Rightarrow>
               (case pool pg_url 10 of
                  Inl e \<Rightarrow> (w, Exit_Error)
                | Inr _ \<Rightarrow>
                    map_prod id Service (supervise (pg_session sk ch cfg) w sessions))))"

text \<open>A program is its service, or ends before it.\<close>

lemma mysql_main_cases:
  obtains (service) cfg where "from_env vs = Ret cfg"
    "mysql_main sk open_log pool vs w sessions =
       map_prod id Service (supervise (mysql_session sk cfg) w sessions)"
  | (ended) r where "mysql_main sk open_log pool vs w sessions = (w, r)" "r \<in> {Exit_Error, Exit_Panic}"
  by (cases "open_log (lit ''/var/www/log/consumer-mysql'')"; cases "from_env vs";
      cases "pool (mysql_url (case from_env vs of Ret c \<Rightarrow> c)) 10")
    (simp_all add: mysql_main_def)

lemma pg_main_cases:
  obtains (service) cfg where "from_env vs = Ret cfg"
    "pg_main sk ch open_log pool vs w sessions =
       map_prod id Service (supervise (pg_session sk ch cfg) w sessions)"
  | (ended) r where "pg_main sk ch open_log pool vs w sessions = (w, r)" "r \<in> {Exit_Error, Exit_Panic}"
proof (cases "open_log (lit ''/var/www/log/consumer-postgres'')")
  case (Inl e)
  with ended show thesis by (simp add: pg_main_def)
next
  case (Inr u)
  show thesis
  proof (cases "bind_rust (from_env vs) (\<lambda>cfg. bind_rust (postgres_consumer_url cfg) (\<lambda>u. Ret (cfg, u)))")
    case Panic
    with Inr ended show thesis by (simp add: pg_main_def)
  next
    case (Ret x)
    then obtain cfg url where "x = (cfg, url)" "from_env vs = Ret cfg" by (auto simp: bind_rust_Ret_iff)
    with Inr Ret ended service show thesis by (cases "pool url 10") (simp_all add: pg_main_def)
  qed
qed

text \<open>A program that came to its loop comes to it whatever it is given there.\<close>

lemma mysql_main_service:
  assumes "mysql_main sk open_log pool vs w xs = (w', Service r)"
  shows "\<exists>cfg. from_env vs = Ret cfg \<and>
    (\<forall>ys. mysql_main sk open_log pool vs w ys = map_prod id Service (supervise (mysql_session sk cfg) w ys))"
  using assms by (auto simp: mysql_main_def split: sum.splits rust.splits)

lemma pg_main_service:
  assumes "pg_main sk ch open_log pool vs w xs = (w', Service r)"
  shows "\<exists>cfg. from_env vs = Ret cfg \<and>
    (\<forall>ys. pg_main sk ch open_log pool vs w ys = map_prod id Service (supervise (pg_session sk ch cfg) w ys))"
  using assms by (auto simp: pg_main_def bind_rust_Ret_iff split: sum.splits rust.splits)

text \<open>What a run keeps, its service keeps.\<close>

lemma supervise_invariant:
  assumes "\<And>w x. x \<in> set xs \<Longrightarrow> P w \<Longrightarrow> P (fst (run w x))"
  shows "P w \<Longrightarrow> P (fst (supervise run w xs))"
  using assms
proof (induction xs arbitrary: w)
  case (Cons x xs)
  obtain w1 r where r: "run w x = (w1, r)" by force
  with Cons.prems have "P w1" by (metis fst_conv list.set_intros(1))
  then have "P (fst (supervise run w1 xs))" using Cons by simp
  with r \<open>P w1\<close> show ?case by (cases r rule: sum.exhaust; cases "projl r") auto
qed simp

lemma supervise_survives:
  assumes "\<And>w w' x. x \<in> set xs \<Longrightarrow> run w x \<noteq> (w', Inl Run_Panicked)"
  shows "supervise run w xs \<noteq> (w', Crashed)"
  using assms
proof (induction xs arbitrary: w)
  case (Cons x xs)
  obtain w1 r where r: "run w x = (w1, r)" by force
  with Cons.prems [of x w w1] have "r \<noteq> Inl Run_Panicked" by auto
  with r Cons show ?case by (cases r rule: sum.exhaust; cases "projl r") auto
qed simp

lemma supervise_received:
  assumes "\<And>w x. mset (settled (fst (run w x))) \<subseteq># mset (settled w) + mset (arrivals (snd x))"
  shows "mset (settled (fst (supervise run w xs))) \<subseteq>#
    mset (settled w) + mset (concat (map (\<lambda>x. arrivals (snd x)) xs))"
proof (induction xs arbitrary: w)
  case (Cons x xs)
  obtain w1 r where r: "run w x = (w1, r)" by force
  from assms [of w x] r have one: "mset (settled w1) \<subseteq># mset (settled w) + mset (arrivals (snd x))" by simp
  have all: "mset (settled (fst (supervise run w1 xs))) \<subseteq>#
      mset (settled w) + mset (concat (map (\<lambda>x. arrivals (snd x)) (x # xs)))"
    using subset_mset.order_trans [OF Cons.IH [of w1] subset_mset.add_right_mono [OF one]]
    by (simp add: add.assoc)
  have here: "mset (settled w1) \<subseteq># mset (settled w) + mset (concat (map (\<lambda>x. arrivals (snd x)) (x # xs)))"
    using subset_mset.add_increasing2 [OF _ one] by (simp add: add.assoc [symmetric])
  consider s where "r = Inr s" | "r = Inl Run_Panicked" | e where "r = Inl e" "e \<noteq> Run_Panicked"
    by (cases r) auto
  then show ?case
  proof cases
    case 3
    then have "supervise run w (x # xs) = supervise run w1 xs" using r by (cases e) simp_all
    with all show ?thesis by simp
  qed (use r here in simp_all)
qed simp

section \<open>The receiver\<close>

datatype receiver_program =
    Receiver_Error
  | Receiver_Panic
  | Serving config app_state rate_quota "notifier option"

text \<open>
  \<open>main\<close> of the receiver: the log, the configuration, Redis, the broker, the TCP task, the HTTP quota
  and the HTTP port, in this order. The TCP task has been spawned when the last two are reached.
\<close>

definition receiver_main ::
  "'w env \<Rightarrow> (path \<Rightarrow> rstr + unit) \<Rightarrow> (rstr \<Rightarrow> service_error + 'c) \<Rightarrow> ('c \<Rightarrow> service_error + unit) \<Rightarrow>
   (rstr \<Rightarrow> rstr + unit) \<Rightarrow> vars \<Rightarrow> 'w \<Rightarrow> 'w \<times> receiver_program" where
  "receiver_main env open_log redis_open redis_connect http_bind vs w =
     (case open_log (lit ''/var/www/log/realtime-ingestion'') of
        Inl e \<Rightarrow> (w, Receiver_Error)
      | Inr _ \<Rightarrow>
          (case from_env vs of
             Panic \<Rightarrow> (w, Receiver_Panic)
           | Ret cfg \<Rightarrow>
               (case dedup_new redis_open redis_connect (redis_url cfg) (word_of_nat (dedup_ttl_secs cfg)) of
                  Inl e \<Rightarrow> (w, Receiver_Error)
                | Inr dedup \<Rightarrow>
                    (case startup_connect env cfg w of
                       (w1, Inl e) \<Rightarrow> (w1, Receiver_Error)
                     | (w1, Inr exchange) \<Rightarrow>
                         (case http_start cfg of
                            Panic \<Rightarrow> (w1, Receiver_Panic)
                          | Ret quota \<Rightarrow>
                              (case http_bind (server_addr cfg) of
                                 Inl e \<Rightarrow> (w1, Receiver_Error)
                               | Inr _ \<Rightarrow>
                                   (w1, Serving cfg
                                      \<lparr> st_ttl_secs = dc_ttl_secs dedup,
                                        st_exchange = exchange \<rparr> quota (config_notifier cfg))))))))"

section \<open>The environment file\<close>

text \<open>
  Every program loads \<open>/var/www/app/.env\<close> into its environment before anything else and goes on whatever
  comes of it; the receiver warns of an error other than a missing file. \<open>dotenvy\<close> is a parameter: it gives
  the variables as it leaves them, also when it fails half way through the file.
\<close>

datatype dotenv_error = Env_Not_Found | Env_Other rstr

type_synonym dotenv = "rstr \<Rightarrow> vars \<Rightarrow> vars \<times> (dotenv_error + unit)"

definition load_env :: "dotenv \<Rightarrow> vars \<Rightarrow> vars \<times> bool" where
  "load_env from_path vs =
     (case from_path (lit ''/var/www/app/.env'') vs of
        (vs', Inr _) \<Rightarrow> (vs', False)
      | (vs', Inl Env_Not_Found) \<Rightarrow> (vs', False)
      | (vs', Inl (Env_Other e)) \<Rightarrow> (vs', True))"

definition receiver_process ::
  "'w env \<Rightarrow> dotenv \<Rightarrow> (path \<Rightarrow> rstr + unit) \<Rightarrow> (rstr \<Rightarrow> service_error + 'c) \<Rightarrow>
   ('c \<Rightarrow> service_error + unit) \<Rightarrow> (rstr \<Rightarrow> rstr + unit) \<Rightarrow> vars \<Rightarrow> 'w \<Rightarrow> 'w \<times> receiver_program" where
  "receiver_process env from_path open_log redis_open redis_connect http_bind vs w =
     (case load_env from_path vs of (vs', warned) \<Rightarrow>
        receiver_main env open_log redis_open redis_connect http_bind vs' w)"

definition mysql_process ::
  "'w mysql_sink \<Rightarrow> dotenv \<Rightarrow> (path \<Rightarrow> rstr + unit) \<Rightarrow> (rstr \<Rightarrow> nat \<Rightarrow> db_error + unit) \<Rightarrow> vars \<Rightarrow> 'w \<Rightarrow>
   session list \<Rightarrow> 'w \<times> mysql_state service program" where
  "mysql_process sk from_path open_log pool vs w sessions =
     (case from_path (lit ''/var/www/app/.env'') vs of (vs', ignored) \<Rightarrow>
        mysql_main sk open_log pool vs' w sessions)"

definition pg_process ::
  "'w pg_sink \<Rightarrow> chrono \<Rightarrow> dotenv \<Rightarrow> (path \<Rightarrow> rstr + unit) \<Rightarrow> (rstr \<Rightarrow> nat \<Rightarrow> db_error + unit) \<Rightarrow> vars \<Rightarrow> 'w \<Rightarrow>
   session list \<Rightarrow> 'w \<times> pg_state service program" where
  "pg_process sk ch from_path open_log pool vs w sessions =
     (case from_path (lit ''/var/www/app/.env'') vs of (vs', ignored) \<Rightarrow>
        pg_main sk ch open_log pool vs' w sessions)"

text \<open>
  A missing file or one that does not parse stops no program: what the programs do is what their
  \<open>main\<close> does from there on the variables that are there.
\<close>

lemma processes_are_mains:
  "receiver_process env from_path open_log redis_open redis_connect http_bind vs w =
     receiver_main env open_log redis_open redis_connect http_bind
       (fst (from_path (lit ''/var/www/app/.env'') vs)) w"
  "mysql_process sk from_path open_log pool vs w sessions =
     mysql_main sk open_log pool (fst (from_path (lit ''/var/www/app/.env'') vs)) w sessions"
  "pg_process sk2 ch from_path open_log pool vs w sessions =
     pg_main sk2 ch open_log pool (fst (from_path (lit ''/var/www/app/.env'') vs)) w sessions"
  by (simp_all add: receiver_process_def load_env_def mysql_process_def pg_process_def
      split: prod.split sum.split dotenv_error.split)

section \<open>The task of a connection\<close>

text \<open>
  What \<open>start\<close> spawns for an admitted connection: the connection until it ends, and then the alert where
  one is due, which names the peer and the error. The text of an error is the system's.
\<close>

definition connection_alert_text :: "ip_addr \<Rightarrow> rstr \<Rightarrow> rstr" where
  "connection_alert_text peer_ip err =
     [128308, 32] @ lit ''<b>[TCP '' @ [47532, 49828, 45320] @ lit '']</b> '' @
     [50672, 44208, 32, 50724, 47448] @ lit '' (IP: '' @ show_ip peer_ip @ lit ''): '' @ err"

definition report_end ::
  "'w http_post \<Rightarrow> (io_kind \<Rightarrow> rstr) \<Rightarrow> notifier option \<Rightarrow> ip_addr \<Rightarrow> 'w \<Rightarrow> conn_end \<Rightarrow> 'w" where
  "report_end post error_text nt peer_ip w e =
     (case e of
        Closed_Ok \<Rightarrow> w
      | Closed_Err k \<Rightarrow>
          if connection_alert e (nt \<noteq> None)
          then alert post nt w (connection_alert_text peer_ip (error_text k)) else w
      | Task_Panicked \<Rightarrow> w)"

definition connection_task ::
  "'w env \<Rightarrow> app_state \<Rightarrow> 'w writer \<Rightarrow> 'w http_post \<Rightarrow> (io_kind \<Rightarrow> rstr) \<Rightarrow> notifier option \<Rightarrow> nat \<Rightarrow>
   ip_addr \<Rightarrow> 'w \<Rightarrow> read_event list \<Rightarrow> 'w \<times> (conn_end + conn)" where
  "connection_task env st write post error_text nt max_frame_bytes peer_ip w evs =
     (case handle_connection env st write max_frame_bytes w conn_new evs of
        (w', Inl e) \<Rightarrow> (report_end post error_text nt peer_ip w' e, Inl e)
      | (w', Inr c) \<Rightarrow> (w', Inr c))"

text \<open>An alert changes nothing of the connection, and is sent for an error other than the peer's own.\<close>

lemma report_end_world:
  "report_end post et nt ip w e =
     (if e = Closed_Err Other_Io then alert post nt w (connection_alert_text ip (et Other_Io)) else w)"
  by (simp add: report_end_def connection_alert_def alert_def
      split: conn_end.split io_kind.split option.split)

lemma connection_task_end:
  "snd (connection_task env st wr post et nt n ip w evs) = snd (handle_connection env st wr n w conn_new evs)"
  by (simp add: connection_task_def split: prod.split sum.split)

section \<open>The listener, restarted\<close>

text \<open>
  One call of \<open>start\<close>: a fresh tracker and the openings and closings until it ends; it ends when an
  \<open>accept\<close> fails. The tasks of its connections are not joined, so its live connections live on.
\<close>

definition listener_session :: "config \<Rightarrow> ip_addr conn_event list \<Rightarrow> tracker \<times> ip_addr multiset" where
  "listener_session cfg es = conn_run (accept_admit (allowed_ips cfg)) release (listener_start cfg, {#}) es"

text \<open>A call of \<open>start\<close> with the result of its \<open>bind\<close>: the connections it leaves behind.\<close>

definition listener_run :: "config \<Rightarrow> (rstr + unit) \<times> ip_addr conn_event list \<Rightarrow> ip_addr multiset" where
  "listener_run cfg x =
     (case x of
        (Inl e, es) \<Rightarrow> {#}
      | (Inr _, es) \<Rightarrow> snd (listener_session cfg es))"

text \<open>The connections that live after some calls, when none of an earlier call has closed yet.\<close>

fun listener_loop :: "config \<Rightarrow> ((rstr + unit) \<times> ip_addr conn_event list) list \<Rightarrow> ip_addr multiset" where
  "listener_loop cfg [] = {#}"
| "listener_loop cfg (x # xs) = listener_run cfg x + listener_loop cfg xs"

lemma listener_loop_size:
  assumes "\<And>es. size (snd (listener_session cfg es)) \<le> n"
  shows "size (listener_loop cfg xs) \<le> length (filter (\<lambda>x. fst x = Inr ()) xs) * n"
proof (induction xs)
  case (Cons x xs)
  have "size (listener_run cfg x) \<le> (if fst x = Inr () then n else 0)"
    using assms by (cases x; cases "fst x") (simp_all add: listener_run_def)
  with Cons show ?case by (auto split: if_splits)
qed simp

lemma listener_loop_replicate:
  "size (listener_loop cfg (replicate k (Inr (), es))) = k * size (snd (listener_session cfg es))"
  by (induction k) (simp_all add: listener_run_def)

end
