(* ===== verification/Ingest.thy ===== *)
theory Ingest
  imports Receiver Tcp_Listener Demo_Env
begin

text \<open>
  The two ways into the broker, \<open>handle_event\<close> of the HTTP receiver and \<open>process_frame\<close> of the TCP
  listener, under one contract: a request makes at most one \<open>SET NX\<close> for its own id, and publishes
  at most once, right after that command registered the id. The client of the contract shows that a
  run of requests publishes each id at most once, over both ways.
\<close>

section \<open>The calls of one request\<close>

text \<open>The calls of \<open>publish\<close>: nothing when the message does not serialise.\<close>

definition publish_calls :: "call list \<Rightarrow> bool" where
  "publish_calls es \<longleftrightarrow>
     es = [] \<or> (\<exists>p e. es = [Publish_Call p (Inl e)]) \<or>
     (\<exists>p t c. es = [Publish_Call p (Inr t), Confirm_Call t c])"

definition request_calls :: "u64 \<Rightarrow> rstr \<Rightarrow> call list \<Rightarrow> bool" where
  "request_calls ttl eid es \<longleftrightarrow>
     es = [] \<or>
     (\<exists>r rest. es = Redis_Call (set_nx_args ttl (dedup_key eid)) r # rest \<and>
        (rest \<noteq> [] \<longrightarrow> (\<exists>v. r = Inr (Some v))) \<and> publish_calls rest)"

definition published :: "call list \<Rightarrow> bool" where
  "published es \<longleftrightarrow> (\<exists>p r. Publish_Call p r \<in> set es)"

definition registered :: "call list \<Rightarrow> bool" where
  "registered es \<longleftrightarrow> (\<exists>a v rest. es = Redis_Call a (Inr (Some v)) # rest)"

lemma published_registered: "request_calls ttl eid es \<Longrightarrow> published es \<Longrightarrow> registered es"
  by (auto simp: request_calls_def published_def registered_def publish_calls_def)

lemma unregistered [simp]:
  "\<not> registered []" "\<not> registered [Redis_Call a (Inl e)]" "\<not> registered [Redis_Call a (Inr None)]"
  by (simp_all add: registered_def)

text \<open>
  Redis as documented, and neither publishing nor waiting for a confirmation touches its keys. No key
  expires: the statements that use this are about a time in which none does.
\<close>

definition nx_env :: "'w env \<Rightarrow> ('w \<Rightarrow> rstr \<Rightarrow> bool) \<Rightarrow> bool" where
  "nx_env env holds \<longleftrightarrow>
     redis_nx env holds \<and>
     (\<forall>w p k. holds w k \<longrightarrow> holds (fst (basic_publish env w p)) k) \<and>
     (\<forall>w t k. holds w k \<longrightarrow> holds (fst (await_confirm env w t)) k)"

lemma publish_traced:
  assumes "publish (traced env) x (w, l) m = ((w', l'), r)"
  shows "\<exists>es. l' = l @ es \<and> publish_calls es \<and>
    (r = Inr () \<longrightarrow> (\<exists>p t c. es = [Publish_Call p (Inr t), Confirm_Call t (Inr c)]))"
    and "nx_env env holds \<Longrightarrow> holds w k \<Longrightarrow> holds w' k"
proof -
  show "\<exists>es. l' = l @ es \<and> publish_calls es \<and>
    (r = Inr () \<longrightarrow> (\<exists>p t c. es = [Publish_Call p (Inr t), Confirm_Call t (Inr c)]))"
    using assms
    by (auto simp: publish_def publish_calls_def split: sum.splits prod.splits)
  assume nx: "nx_env env holds" "holds w k"
  show "holds w' k"
  proof (cases "to_vec env m")
    case (Inl e)
    with assms nx show ?thesis by (simp add: publish_def)
  next
    case (Inr body)
    obtain w1 a where p: "basic_publish env w (publication_of x body) = (w1, a)" by force
    then have h1: "holds w1 k" using nx unfolding nx_env_def by (metis fst_conv)
    show ?thesis
    proof (cases a)
      case (Inl e)
      with assms Inr p h1 show ?thesis by (simp add: publish_def)
    next
      case t: (Inr t)
      obtain w2 c where c: "await_confirm env w1 t = (w2, c)" by force
      then have "holds w2 k" using nx h1 unfolding nx_env_def by (metis fst_conv)
      with assms Inr p t c show ?thesis by (cases c) (simp_all add: publish_def)
    qed
  qed
qed

lemma is_new_traced:
  assumes "is_new (traced env) ttl (w, l) eid = ((w', l'), r)"
  obtains
    (refused) e where "w' = w" "l' = l" "r = Inl e"
  | (failed) e where "l' = l @ [Redis_Call (set_nx_args ttl (dedup_key eid)) (Inl e)]"
      "redis_query env w (set_nx_args ttl (dedup_key eid)) = (w', Inl e)" "r = Inl (Service_Failure e)"
  | (known) "l' = l @ [Redis_Call (set_nx_args ttl (dedup_key eid)) (Inr None)]"
      "redis_query env w (set_nx_args ttl (dedup_key eid)) = (w', Inr None)" "r = Inr False"
  | (fresh) v where "l' = l @ [Redis_Call (set_nx_args ttl (dedup_key eid)) (Inr (Some v))]"
      "redis_query env w (set_nx_args ttl (dedup_key eid)) = (w', Inr (Some v))" "r = Inr True"
proof (cases "eid = [] \<or> byte_len eid > 512")
  case True
  with assms refused show ?thesis by (auto simp: is_new_def)
next
  case False
  obtain w1 a where q: "redis_query env w (set_nx_args ttl (dedup_key eid)) = (w1, a)" by force
  show ?thesis
  proof (cases a)
    case (Inl e)
    with assms False q failed show ?thesis by (auto simp: is_new_def)
  next
    case (Inr x)
    with assms False q known fresh show ?thesis by (cases x) (auto simp: is_new_def)
  qed
qed

text \<open>A request that checks its id and publishes when it was new keeps the contract.\<close>

definition checked_publish ::
  "'w env \<Rightarrow> u64 \<Rightarrow> rstr \<Rightarrow> rstr \<Rightarrow> (('w \<times> call list) \<Rightarrow> queue_message) \<Rightarrow> 'w \<times> call list \<Rightarrow> 'w \<times> call list"
where
  "checked_publish env ttl x eid msg wl =
     (case is_new (traced env) ttl wl eid of
        (wl1, Inr True) \<Rightarrow> fst (publish (traced env) x wl1 (msg wl1))
      | (wl1, _) \<Rightarrow> wl1)"

lemma checked_publish_calls:
  assumes "checked_publish env ttl x eid msg (w, []) = (w', es)"
  shows "request_calls ttl eid es"
    and "nx_env env holds \<Longrightarrow> registered es \<Longrightarrow> \<not> holds w (dedup_key eid) \<and> holds w' (dedup_key eid)"
    and "nx_env env holds \<Longrightarrow> holds w k \<Longrightarrow> holds w' k"
proof -
  let ?args = "set_nx_args ttl (dedup_key eid)"
  obtain w1 l1 r where new: "is_new (traced env) ttl (w, []) eid = ((w1, l1), r)" by (metis surj_pair)
  have "request_calls ttl eid es \<and>
    (nx_env env holds \<longrightarrow> registered es \<longrightarrow> \<not> holds w (dedup_key eid) \<and> holds w' (dedup_key eid)) \<and>
    (nx_env env holds \<longrightarrow> holds w k \<longrightarrow> holds w' k)"
  using new
  proof (cases rule: is_new_traced)
    case refused
    with assms new have "es = []" "w' = w" by (auto simp: checked_publish_def)
    then show ?thesis by (simp add: request_calls_def registered_def)
  next
    case (failed e)
    with assms new have "es = l1" "w' = w1" by (auto simp: checked_publish_def)
    with failed show ?thesis
      using redis_nxD(4) [of env holds w ttl "dedup_key eid" w1 "Inl e" k]
      by (auto simp: request_calls_def publish_calls_def registered_def nx_env_def)
  next
    case known
    with assms new have "es = l1" "w' = w1" by (auto simp: checked_publish_def)
    with known show ?thesis
      using redis_nxD(4) [of env holds w ttl "dedup_key eid" w1 "Inr None" k]
      by (auto simp: request_calls_def publish_calls_def registered_def nx_env_def)
  next
    case fresh
    obtain w2 l2 b where pub: "publish (traced env) x (w1, l1) (msg (w1, l1)) = ((w2, l2), b)"
      by (metis surj_pair)
    with assms new fresh have e: "es = l2" "w' = w2" by (auto simp: checked_publish_def)
    from publish_traced(1) [OF pub] obtain fs where "l2 = l1 @ fs" "publish_calls fs" by blast
    with fresh e have "request_calls ttl eid es" by (auto simp: request_calls_def)
    moreover have "\<not> holds w (dedup_key eid) \<and> holds w' (dedup_key eid)" if nx: "nx_env env holds"
    proof -
      from nx have r: "redis_nx env holds" by (simp add: nx_env_def)
      have "holds w1 (dedup_key eid)" using redis_nxD(2) [OF r fresh(2)] by simp
      then have "holds w' (dedup_key eid)" using publish_traced(2) [OF pub nx] e by simp
      then show ?thesis using redis_nxD(1) [OF r fresh(2)] by simp
    qed
    moreover have "holds w' k" if nx: "nx_env env holds" and "holds w k"
      using that publish_traced(2) [OF pub nx] e redis_nxD(4) [OF _ fresh(2), of holds k]
      by (simp add: nx_env_def)
    ultimately show ?thesis by blast
  qed
  then show "request_calls ttl eid es"
    and "nx_env env holds \<Longrightarrow> registered es \<Longrightarrow> \<not> holds w (dedup_key eid) \<and> holds w' (dedup_key eid)"
    and "nx_env env holds \<Longrightarrow> holds w k \<Longrightarrow> holds w' k" by blast+
qed

section \<open>The contract\<close>

text \<open>The calls of each request of a run, one list per request.\<close>

fun ingest_calls ::
  "('w \<times> call list \<Rightarrow> 'q \<Rightarrow> 'w \<times> call list) \<Rightarrow> 'w \<Rightarrow> 'q list \<Rightarrow> call list list" where
  "ingest_calls handle w [] = []"
| "ingest_calls handle w (q # qs) =
     (case handle (w, []) q of (w', es) \<Rightarrow> es # ingest_calls handle w' qs)"

definition published_ids :: "('q \<Rightarrow> rstr) \<Rightarrow> 'q list \<Rightarrow> call list list \<Rightarrow> rstr list" where
  "published_ids id_of qs ess = map (\<lambda>(q, es). id_of q) (filter (\<lambda>(q, es). published es) (zip qs ess))"

locale ingest_path =
  fixes env :: "'w env" and handle :: "'w \<times> call list \<Rightarrow> 'q \<Rightarrow> 'w \<times> call list"
    and id_of :: "'q \<Rightarrow> rstr" and ttl :: u64
  assumes handle_calls: "request_calls ttl (id_of q) (snd (handle (w, []) q))"
    and handle_new: "nx_env env holds \<Longrightarrow> registered (snd (handle (w, []) q)) \<Longrightarrow>
        \<not> holds w (dedup_key (id_of q)) \<and> holds (fst (handle (w, []) q)) (dedup_key (id_of q))"
    and handle_keeps: "nx_env env holds \<Longrightarrow> holds w k \<Longrightarrow> holds (fst (handle (w, []) q)) k"
begin

lemma run_calls:
  "list_all2 (\<lambda>q es. request_calls ttl (id_of q) es) qs (ingest_calls handle w qs)"
proof (induction qs arbitrary: w)
  case (Cons q qs)
  then show ?case using handle_calls [of q w] by (auto split: prod.split)
qed simp

text \<open>A held id is published by no request.\<close>

lemma held_not_published:
  "nx_env env holds \<Longrightarrow> holds w (dedup_key (id_of q)) \<Longrightarrow> \<not> published (snd (handle (w, []) q))"
  using handle_new published_registered [OF handle_calls] by blast

lemma run_publishes_once:
  assumes nx: "nx_env env holds"
  shows "distinct (published_ids id_of qs (ingest_calls handle w qs)) \<and>
    (\<forall>i \<in> set (published_ids id_of qs (ingest_calls handle w qs)). \<not> holds w (dedup_key i))"
proof (induction qs arbitrary: w)
  case Nil
  then show ?case by (simp add: published_ids_def)
next
  case (Cons q qs)
  obtain w1 es where h: "handle (w, []) q = (w1, es)" by force
  let ?rest = "published_ids id_of qs (ingest_calls handle w1 qs)"
  have keep: "\<not> holds w1 (dedup_key i) \<Longrightarrow> \<not> holds w (dedup_key i)" for i
    using handle_keeps [OF nx, of w _ q] h by auto
  show ?case
  proof (cases "published es")
    case True
    then have "registered es" using published_registered [OF handle_calls [of q w]] h by simp
    then have "\<not> holds w (dedup_key (id_of q))" "holds w1 (dedup_key (id_of q))"
      using handle_new [OF nx, of w q] h by simp_all
    with Cons.IH [of w1] keep True h show ?thesis
      by (auto simp: published_ids_def)
  next
    case False
    with Cons.IH [of w1] keep h show ?thesis by (auto simp: published_ids_def)
  qed
qed

end

section \<open>The two ways and their mix\<close>

lemma handle_event_checked:
  "fst (handle_event (traced env) st (w, l) e) =
     (if validate_event e = None \<and> clock_ms env (fst (fst (is_new (traced env) (st_ttl_secs st) (w, l) (ev_id e)))) \<noteq> None
      then checked_publish env (st_ttl_secs st) (st_exchange st) (ev_id e)
        (\<lambda>wl. event_message e (millis_i64 (the (clock_ms env (fst wl))))) (w, l)
      else if validate_event e = None
      then fst (is_new (traced env) (st_ttl_secs st) (w, l) (ev_id e))
      else (w, l))"
proof (cases "validate_event e")
  case None
  obtain w1 l1 r where new: "is_new (traced env) (st_ttl_secs st) (w, l) (ev_id e) = ((w1, l1), r)"
    by (metis surj_pair)
  show ?thesis
    using None new
    by (cases r) (auto simp: handle_event_def checked_publish_def split: prod.splits sum.splits option.splits)
next
  case (Some r)
  then show ?thesis by (simp add: handle_event_def)
qed

definition ingests :: "'w env \<Rightarrow> u64 \<Rightarrow> rstr \<Rightarrow> 'w \<Rightarrow> 'w \<times> call list \<Rightarrow> bool" where
  "ingests env ttl eid w res \<longleftrightarrow>
     request_calls ttl eid (snd res) \<and>
     (\<forall>holds. nx_env env holds \<longrightarrow>
        (registered (snd res) \<longrightarrow> \<not> holds w (dedup_key eid) \<and> holds (fst res) (dedup_key eid)) \<and>
        (\<forall>k. holds w k \<longrightarrow> holds (fst res) k))"

lemma ingestsD:
  assumes "ingests env ttl eid w res"
  shows "request_calls ttl eid (snd res)"
    and "nx_env env holds \<Longrightarrow> registered (snd res) \<Longrightarrow> \<not> holds w (dedup_key eid) \<and> holds (fst res) (dedup_key eid)"
    and "nx_env env holds \<Longrightarrow> holds w k \<Longrightarrow> holds (fst res) k"
  using assms unfolding ingests_def by blast+

lemma ingest_pathI:
  assumes "\<And>q w. ingests env ttl (id_of q) w (handle (w, []) q)"
  shows "ingest_path env handle id_of ttl"
  by unfold_locales (rule ingestsD [OF assms]; assumption)+

lemma ingests_nothing: "ingests env ttl eid w (w, [])"
  by (simp add: ingests_def request_calls_def registered_def)

lemma ingests_checked: "ingests env ttl eid w (checked_publish env ttl x eid msg (w, []))"
proof -
  obtain w' es where "checked_publish env ttl x eid msg (w, []) = (w', es)" by force
  from checked_publish_calls [OF this] show ?thesis
    using \<open>checked_publish env ttl x eid msg (w, []) = (w', es)\<close>
    unfolding ingests_def by (metis fst_conv snd_conv)
qed

lemma ingests_check_only: "ingests env ttl eid w (fst (is_new (traced env) ttl (w, []) eid))"
proof -
  obtain w1 l1 r where new: "is_new (traced env) ttl (w, []) eid = ((w1, l1), r)" by (metis surj_pair)
  have keeps: "holds w1 k"
    if "nx_env env holds" "holds w k" "redis_query env w (set_nx_args ttl (dedup_key eid)) = (w1, a)"
    for holds k a
    using that redis_nxD(4) [OF _ that(3), of holds k] by (simp add: nx_env_def)
  have fresh: "\<not> holds w (dedup_key eid) \<and> holds w1 (dedup_key eid)"
    if "nx_env env holds" "redis_query env w (set_nx_args ttl (dedup_key eid)) = (w1, Inr (Some v))"
    for holds v
    using that redis_nxD(1,2) [OF _ that(2), of holds] by (simp add: nx_env_def)
  show ?thesis
    using new
    by (cases rule: is_new_traced)
      (auto simp: new ingests_def request_calls_def publish_calls_def registered_def
        intro: keeps dest: fresh)
qed

lemma handle_event_ingests:
  "ingests env (st_ttl_secs st) (ev_id e) w (fst (handle_event (traced env) st (w, []) e))"
  unfolding handle_event_checked
  using ingests_checked ingests_check_only ingests_nothing by (auto split: if_splits)

text \<open>The id a frame is registered under.\<close>

definition frame_id :: "'w env \<Rightarrow> bytes \<Rightarrow> rstr" where
  "frame_id env frame = field (euc_kr_decode env) frame 12 12"

lemma process_frame_ingests:
  "ingests env (st_ttl_secs st) (frame_id env f) w (fst (process_frame (traced env) st (w, []) f))"
proof (cases "parse_frame (traced env) (w, []) f")
  case (Inl e)
  then show ?thesis by (simp add: process_frame_def ingests_nothing)
next
  case (Inr m)
  then have "qm_id m = frame_id env f"
    by (auto simp: parse_frame_def Let_def frame_id_def split: if_splits)
  with Inr have "fst (process_frame (traced env) st (w, []) f) =
      checked_publish env (st_ttl_secs st) (st_exchange st) (frame_id env f) (\<lambda>_. m) (w, [])"
    by (auto simp: process_frame_def checked_publish_def Let_def split: prod.splits sum.splits bool.splits)
  then show ?thesis using ingests_checked by metis
qed

interpretation http: ingest_path env "\<lambda>wl e. fst (handle_event (traced env) st wl e)" ev_id "st_ttl_secs st"
  for env :: "'w env" and st
  by (rule ingest_pathI) (rule handle_event_ingests)

interpretation tcp: ingest_path env "\<lambda>wl f. fst (process_frame (traced env) st wl f)" "frame_id env"
  "st_ttl_secs st"
  for env :: "'w env" and st
  by (rule ingest_pathI) (rule process_frame_ingests)

text \<open>A mixed run: both ways share the state, so they share the ids.\<close>

datatype ingest_request = Http_Event incoming_event | Tcp_Frame bytes

definition ingest_step :: "'w env \<Rightarrow> app_state \<Rightarrow> 'w \<times> call list \<Rightarrow> ingest_request \<Rightarrow> 'w \<times> call list" where
  "ingest_step env st wl q =
     (case q of
        Http_Event e \<Rightarrow> fst (handle_event (traced env) st wl e)
      | Tcp_Frame f \<Rightarrow> fst (process_frame (traced env) st wl f))"

definition request_id :: "'w env \<Rightarrow> ingest_request \<Rightarrow> rstr" where
  "request_id env q = (case q of Http_Event e \<Rightarrow> ev_id e | Tcp_Frame f \<Rightarrow> frame_id env f)"

interpretation mixed: ingest_path env "ingest_step env st" "request_id env" "st_ttl_secs st"
  for env :: "'w env" and st
proof (rule ingest_pathI)
  show "ingests env (st_ttl_secs st) (request_id env q) w (ingest_step env st (w, []) q)" for q w
    using handle_event_ingests process_frame_ingests
    by (cases q) (simp_all add: ingest_step_def request_id_def)
qed

end
