(* ===== verification/Ingest_Steps.thy ===== *)
theory Ingest_Steps
  imports Ingest
begin

text \<open>
  The requests of the receiver at the grain of its \<open>await\<close>s. Each HTTP event and each frame is handled
  by a task of its own, and another task may run whenever one waits for Redis or RabbitMQ. A task
  makes three moves at most: it validates or parses its request and asks Redis, it hands the message to
  RabbitMQ, and it waits for the confirmation. A schedule names the task of each move.

  The moves of one task in a row are the handler of \<open>receiver.rs\<close> or \<open>tcp_listener.rs\<close>, call by call,
  and under every schedule each id is published at most once.
\<close>

section \<open>Tasks and schedules\<close>

datatype task_state =
    Waiting
  | To_Publish queue_message
  | To_Confirm nat
  | Finished

definition begin_request ::
  "'w env \<Rightarrow> app_state \<Rightarrow> 'w \<Rightarrow> ingest_request \<Rightarrow> 'w \<times> queue_message option" where
  "begin_request env st w q =
     (case q of
        Http_Event e \<Rightarrow>
          (case validate_event e of
             Some err \<Rightarrow> (w, None)
           | None \<Rightarrow>
               (case is_new env (st_ttl_secs st) w (ev_id e) of
                  (w1, Inl err) \<Rightarrow> (w1, None)
                | (w1, Inr False) \<Rightarrow> (w1, None)
                | (w1, Inr True) \<Rightarrow>
                    (w1, map_option (\<lambda>now. event_message e (millis_i64 now)) (clock_ms env w1))))
      | Tcp_Frame f \<Rightarrow>
          (case parse_frame env w f of
             Inl err \<Rightarrow> (w, None)
           | Inr m \<Rightarrow>
               (case is_new env (st_ttl_secs st) w (qm_id m) of
                  (w1, Inl err) \<Rightarrow> (w1, None)
                | (w1, Inr new) \<Rightarrow> (w1, if new then Some m else None))))"

definition task_step ::
  "'w env \<Rightarrow> app_state \<Rightarrow> ingest_request \<Rightarrow> 'w \<Rightarrow> task_state \<Rightarrow> 'w \<times> task_state" where
  "task_step env st q w t =
     (case t of
        Waiting \<Rightarrow>
          (case begin_request env st w q of
             (w1, None) \<Rightarrow> (w1, Finished)
           | (w1, Some m) \<Rightarrow> (w1, To_Publish m))
      | To_Publish m \<Rightarrow>
          (case to_vec env m of
             Inl e \<Rightarrow> (w, Finished)
           | Inr body \<Rightarrow>
               (case basic_publish env w (publication_of (st_exchange st) body) of
                  (w1, Inl e) \<Rightarrow> (w1, Finished)
                | (w1, Inr confirm) \<Rightarrow> (w1, To_Confirm confirm)))
      | To_Confirm confirm \<Rightarrow> (fst (await_confirm env w confirm), Finished)
      | Finished \<Rightarrow> (w, Finished))"

record 'w tasks_state =
  ts_world :: "'w"
  ts_task :: "nat \<Rightarrow> task_state"
  ts_log :: "(nat \<times> call) list"

definition tasks_start :: "'w \<Rightarrow> 'w tasks_state" where
  "tasks_start w = \<lparr> ts_world = w, ts_task = (\<lambda>_. Waiting), ts_log = [] \<rparr>"

definition move ::
  "'w env \<Rightarrow> app_state \<Rightarrow> (nat \<Rightarrow> ingest_request) \<Rightarrow> 'w tasks_state \<Rightarrow> nat \<Rightarrow> 'w tasks_state" where
  "move env st qs s i =
     (case task_step (traced env) st (qs i) (ts_world s, []) (ts_task s i) of
        ((w', es), t') \<Rightarrow>
          \<lparr> ts_world = w', ts_task = (ts_task s)(i := t'), ts_log = ts_log s @ map (Pair i) es \<rparr>)"

fun run_schedule ::
  "'w env \<Rightarrow> app_state \<Rightarrow> (nat \<Rightarrow> ingest_request) \<Rightarrow> 'w tasks_state \<Rightarrow> nat list \<Rightarrow> 'w tasks_state" where
  "run_schedule env st qs s [] = s"
| "run_schedule env st qs s (i # is) = run_schedule env st qs (move env st qs s i) is"

lemma run_schedule_append:
  "run_schedule env st qs s (a @ b) = run_schedule env st qs (run_schedule env st qs s a) b"
  by (induction a arbitrary: s) simp_all

definition calls_of :: "nat \<Rightarrow> (nat \<times> call) list \<Rightarrow> call list" where
  "calls_of i l = map snd (filter (\<lambda>(j, c). j = i) l)"

definition published_by :: "(nat \<times> call) list \<Rightarrow> nat list" where
  "published_by l = map fst (filter (\<lambda>(j, c). case c of Publish_Call p r \<Rightarrow> True | _ \<Rightarrow> False) l)"

lemma calls_of_simps [simp]:
  "calls_of i [] = []" "calls_of i (l @ l') = calls_of i l @ calls_of i l'"
  "calls_of i (map (Pair i) es) = es" "i \<noteq> j \<Longrightarrow> calls_of i (map (Pair j) es) = []"
  by (simp_all add: calls_of_def filter_map comp_def)

lemma calls_of_Cons: "calls_of i ((j, c) # l) = (if j = i then c # calls_of i l else calls_of i l)"
  by (simp add: calls_of_def)

lemma published_by_simps [simp]:
  "published_by [] = []" "published_by (l @ l') = published_by l @ published_by l'"
  by (simp_all add: published_by_def)

lemma published_by_calls: "j \<in> set (published_by l) \<longleftrightarrow> published (calls_of j l)"
  by (force simp: published_by_def published_def calls_of_def split: call.splits)

section \<open>One task\<close>

text \<open>What a task has called, by its state.\<close>

fun task_ok :: "u64 \<Rightarrow> rstr \<Rightarrow> task_state \<Rightarrow> call list \<Rightarrow> bool" where
  "task_ok ttl eid Waiting cs \<longleftrightarrow> cs = []"
| "task_ok ttl eid (To_Publish m) cs \<longleftrightarrow>
     (\<exists>v. cs = [Redis_Call (set_nx_args ttl (dedup_key eid)) (Inr (Some v))])"
| "task_ok ttl eid (To_Confirm t) cs \<longleftrightarrow>
     (\<exists>v p. cs = [Redis_Call (set_nx_args ttl (dedup_key eid)) (Inr (Some v)), Publish_Call p (Inr t)])"
| "task_ok ttl eid Finished cs \<longleftrightarrow> request_calls ttl eid cs"

lemma task_ok_registered: "task_ok ttl eid t cs \<Longrightarrow> published cs \<Longrightarrow> registered cs"
  by (cases t) (simp_all add: published_registered, auto simp: published_def registered_def)

lemma is_new_asks:
  assumes "is_new (traced env) ttl (w, []) eid = ((w', es), r)"
  shows "w' = w \<and> es = [] \<and> r \<noteq> Inr True \<or>
    (\<exists>a. es = [Redis_Call (set_nx_args ttl (dedup_key eid)) a] \<and>
       redis_query env w (set_nx_args ttl (dedup_key eid)) = (w', a) \<and>
       (r = Inr True \<longrightarrow> (\<exists>v. a = Inr (Some v))))"
  using assms by (cases rule: is_new_traced) auto

lemma parse_frame_traced: "parse_frame (traced env) (w, l) f = parse_frame env w f"
  by (simp add: parse_frame_def)

lemma parsed_id: "parse_frame env w f = Inr m \<Longrightarrow> qm_id m = frame_id env f"
  by (auto simp: parse_frame_def Let_def frame_id_def split: if_splits)

lemma bool_result:
  obtains (failed) e where "x = Inl e" | (yes) "x = Inr True" | (no) "x = Inr False"
  by (cases x) auto

text \<open>The first move: no call, or one question to Redis, answered OK when there is a message.\<close>

lemma begin_request_asks:
  assumes "begin_request (traced env) st (w, []) q = ((w', es), r)"
  defines "args \<equiv> set_nx_args (st_ttl_secs st) (dedup_key (request_id env q))"
  shows "w' = w \<and> es = [] \<and> r = None \<or>
    (\<exists>a. es = [Redis_Call args a] \<and> redis_query env w args = (w', a) \<and>
       (r \<noteq> None \<longrightarrow> (\<exists>v. a = Inr (Some v))))"
proof -
  obtain w1 l1 x where new:
    "is_new (traced env) (st_ttl_secs st) (w, []) (request_id env q) = ((w1, l1), x)"
    by (metis surj_pair)
  have "w' = w \<and> es = [] \<and> r = None \<or> w' = w1 \<and> es = l1 \<and> (r \<noteq> None \<longrightarrow> x = Inr True)"
  proof (cases q)
    case (Http_Event e)
    then have new': "is_new (traced env) (st_ttl_secs st) (w, []) (ev_id e) = ((w1, l1), x)"
      using new by (simp add: request_id_def)
    show ?thesis
    proof (cases "validate_event e")
      case None
      with assms(1) Http_Event new' show ?thesis
        by (cases x rule: bool_result) (simp_all add: begin_request_def)
    next
      case (Some err)
      with assms(1) Http_Event show ?thesis by (simp add: begin_request_def)
    qed
  next
    case (Tcp_Frame f)
    show ?thesis
    proof (cases "parse_frame env w f")
      case (Inl err)
      with assms(1) Tcp_Frame show ?thesis by (simp add: begin_request_def parse_frame_traced)
    next
      case (Inr m)
      then have "is_new (traced env) (st_ttl_secs st) (w, []) (qm_id m) = ((w1, l1), x)"
        using new Tcp_Frame parsed_id [OF Inr] by (simp add: request_id_def)
      with assms(1) Tcp_Frame Inr show ?thesis
        by (cases x rule: bool_result) (simp_all add: begin_request_def parse_frame_traced)
    qed
  qed
  with is_new_asks [OF new] show ?thesis unfolding args_def by (elim disjE) auto
qed

lemma task_step_ok:
  assumes "task_step (traced env) st q (w, []) t = ((w', es), t')"
    and "task_ok (st_ttl_secs st) (request_id env q) t cs"
  shows "task_ok (st_ttl_secs st) (request_id env q) t' (cs @ es)"
    and "nx_env env holds \<Longrightarrow> holds w k \<Longrightarrow> holds w' k"
    and "nx_env env holds \<Longrightarrow> registered (cs @ es) \<Longrightarrow> \<not> registered cs \<Longrightarrow>
      \<not> holds w (dedup_key (request_id env q)) \<and> holds w' (dedup_key (request_id env q))"
proof -
  let ?args = "set_nx_args (st_ttl_secs st) (dedup_key (request_id env q))"
  have "task_ok (st_ttl_secs st) (request_id env q) t' (cs @ es) \<and>
    (nx_env env holds \<longrightarrow>
      (\<forall>k. holds w k \<longrightarrow> holds w' k) \<and>
      (registered (cs @ es) \<longrightarrow> \<not> registered cs \<longrightarrow>
        \<not> holds w (dedup_key (request_id env q)) \<and> holds w' (dedup_key (request_id env q))))"
  proof (cases t)
    case Waiting
    obtain w1 l1 r where b: "begin_request (traced env) st (w, []) q = ((w1, l1), r)"
      by (metis surj_pair)
    with assms Waiting have e: "w' = w1" "es = l1" "cs = []"
      "t' = (case r of None \<Rightarrow> Finished | Some m \<Rightarrow> To_Publish m)"
      by (auto simp: task_step_def split: option.splits)
    from begin_request_asks [OF b] show ?thesis
    proof (elim disjE exE conjE)
      assume "w1 = w" "l1 = []" "r = None"
      with e show ?thesis by (simp add: request_calls_def)
    next
      fix a
      assume l: "l1 = [Redis_Call ?args a]" and ask: "redis_query env w ?args = (w1, a)"
        and r: "r \<noteq> None \<longrightarrow> (\<exists>v. a = Inr (Some v))"
      have "task_ok (st_ttl_secs st) (request_id env q) t' (cs @ es)"
        using e l r by (cases r) (auto simp: request_calls_def publish_calls_def)
      moreover have "(\<forall>k. holds w k \<longrightarrow> holds w1 k) \<and>
          (registered l1 \<longrightarrow> \<not> holds w (dedup_key (request_id env q)) \<and> holds w1 (dedup_key (request_id env q)))"
        if "nx_env env holds"
        using that redis_nxD [OF _ ask, of holds] l by (auto simp: nx_env_def registered_def)
      ultimately show ?thesis using e by simp
    qed
  next
    case (To_Publish m)
    show ?thesis
    proof (cases "to_vec env m")
      case (Inl e)
      with assms To_Publish show ?thesis
        by (auto simp: task_step_def request_calls_def publish_calls_def)
    next
      case (Inr body)
      obtain w1 a where p: "basic_publish env w (publication_of (st_exchange st) body) = (w1, a)"
        by force
      then have "nx_env env holds \<Longrightarrow> holds w k \<Longrightarrow> holds w1 k" for k
        unfolding nx_env_def by (metis fst_conv)
      with assms To_Publish Inr p show ?thesis
        by (cases a) (auto simp: task_step_def request_calls_def publish_calls_def registered_def)
    qed
  next
    case (To_Confirm u)
    obtain w1 a where p: "await_confirm env w u = (w1, a)" by force
    then have "nx_env env holds \<Longrightarrow> holds w k \<Longrightarrow> holds w1 k" for k
      unfolding nx_env_def by (metis fst_conv)
    with assms To_Confirm p show ?thesis
      by (auto simp: task_step_def request_calls_def publish_calls_def registered_def)
  next
    case Finished
    with assms show ?thesis by (simp add: task_step_def)
  qed
  then show "task_ok (st_ttl_secs st) (request_id env q) t' (cs @ es)"
    and "nx_env env holds \<Longrightarrow> holds w k \<Longrightarrow> holds w' k"
    and "nx_env env holds \<Longrightarrow> registered (cs @ es) \<Longrightarrow> \<not> registered cs \<Longrightarrow>
      \<not> holds w (dedup_key (request_id env q)) \<and> holds w' (dedup_key (request_id env q))" by simp_all
qed

section \<open>All tasks\<close>

text \<open>
  The invariant: each task's calls fit its state; the key of a registered task is held, and no two
  registered tasks have the same id; and no id is published twice.
\<close>

definition tasks_inv ::
  "('w \<Rightarrow> rstr \<Rightarrow> bool) \<Rightarrow> u64 \<Rightarrow> (nat \<Rightarrow> rstr) \<Rightarrow> 'w tasks_state \<Rightarrow> bool" where
  "tasks_inv holds ttl ids s \<longleftrightarrow>
     (\<forall>i. task_ok ttl (ids i) (ts_task s i) (calls_of i (ts_log s))) \<and>
     (\<forall>i. registered (calls_of i (ts_log s)) \<longrightarrow> holds (ts_world s) (dedup_key (ids i))) \<and>
     (\<forall>i j. registered (calls_of i (ts_log s)) \<longrightarrow> registered (calls_of j (ts_log s)) \<longrightarrow>
        ids i = ids j \<longrightarrow> i = j) \<and>
     distinct (published_by (ts_log s))"

lemma tasks_inv_start: "tasks_inv holds ttl ids (tasks_start w)"
  by (simp add: tasks_inv_def tasks_start_def registered_def)

lemma published_by_calls_of_one:
  "task_ok ttl eid t cs \<Longrightarrow> task_ok ttl eid t' (cs @ es) \<Longrightarrow>
   distinct (published_by (map (Pair i) es)) \<and> (published es \<longrightarrow> \<not> published cs)"
  by (cases t; cases t')
    (auto simp: request_calls_def publish_calls_def published_by_def published_def)

lemma move_inv:
  assumes nx: "nx_env env holds" and inv: "tasks_inv holds (st_ttl_secs st) (\<lambda>i. request_id env (qs i)) s"
  shows "tasks_inv holds (st_ttl_secs st) (\<lambda>i. request_id env (qs i)) (move env st qs s i)"
proof -
  let ?ids = "\<lambda>i. request_id env (qs i)"
  let ?cs = "\<lambda>j. calls_of j (ts_log s)"
  obtain w' es t' where step: "task_step (traced env) st (qs i) (ts_world s, []) (ts_task s i) = ((w', es), t')"
    by (metis surj_pair)
  have ok: "task_ok (st_ttl_secs st) (?ids j) (ts_task s j) (?cs j)" for j
    using inv by (simp add: tasks_inv_def)
  have held: "registered (?cs j) \<Longrightarrow> holds (ts_world s) (dedup_key (?ids j))" for j
    using inv by (simp add: tasks_inv_def)
  have inj: "registered (?cs j) \<Longrightarrow> registered (?cs k) \<Longrightarrow> ?ids j = ?ids k \<Longrightarrow> j = k" for j k
    using inv by (simp add: tasks_inv_def)
  note one = task_step_ok [OF step ok]
  have old: "registered (?cs j) \<Longrightarrow> ?ids j = ?ids i \<Longrightarrow> registered (?cs i @ es) \<Longrightarrow> registered (?cs i)" for j
    using one(3) [OF nx] held [of j] by auto
  let ?s' = "move env st qs s i"
  have s': "ts_world ?s' = w'" "ts_task ?s' = (ts_task s)(i := t')" "ts_log ?s' = ts_log s @ map (Pair i) es"
    by (simp_all add: move_def step)
  have cs': "calls_of j (ts_log ?s') = (if j = i then ?cs i @ es else ?cs j)" for j
    by (simp add: s')
  show ?thesis
    unfolding tasks_inv_def
  proof (intro conjI allI impI)
    show "task_ok (st_ttl_secs st) (?ids j) (ts_task ?s' j) (calls_of j (ts_log ?s'))" for j
      using ok [of j] one(1) by (simp add: s')
    show "holds (ts_world ?s') (dedup_key (?ids j))" if "registered (calls_of j (ts_log ?s'))" for j
      using that one(2,3) [OF nx] held [of j] by (auto simp: cs' s'(1) split: if_splits)
    show "j = k" if "registered (calls_of j (ts_log ?s'))" "registered (calls_of k (ts_log ?s'))"
      "?ids j = ?ids k" for j k
      using that inj [of j k] old [of j] old [of k] by (auto simp: cs' split: if_splits)
    have fresh: "i \<notin> set (published_by (ts_log s))" if "published es"
      using published_by_calls_of_one [OF ok one(1)] that by (simp add: published_by_calls)
    have "x = i \<and> published es" if "x \<in> set (published_by (map (Pair i) es))" for x
      using that by (cases "x = i") (simp_all add: published_by_calls, simp add: published_def)
    with fresh have "set (published_by (ts_log s)) \<inter> set (published_by (map (Pair i) es)) = {}"
      by blast
    then show "distinct (published_by (ts_log ?s'))"
      using inv published_by_calls_of_one [OF ok one(1), of i] by (simp add: s' tasks_inv_def)
  qed
qed

lemma run_schedule_inv:
  "nx_env env holds \<Longrightarrow> tasks_inv holds (st_ttl_secs st) (\<lambda>i. request_id env (qs i)) s \<Longrightarrow>
   tasks_inv holds (st_ttl_secs st) (\<lambda>i. request_id env (qs i)) (run_schedule env st qs s sch)"
  by (induction sch arbitrary: s) (simp_all add: move_inv)

text \<open>Three moves end a task.\<close>

fun moves_left :: "task_state \<Rightarrow> nat" where
  "moves_left Waiting = 3"
| "moves_left (To_Publish m) = 2"
| "moves_left (To_Confirm t) = 1"
| "moves_left Finished = 0"

lemma task_step_progress: "task_step env st q w t = (w', t') \<Longrightarrow> moves_left t' \<le> moves_left t - 1"
  by (cases t) (auto simp: task_step_def split: prod.splits option.splits sum.splits)

lemma move_progress:
  "moves_left (ts_task (move env st qs s i) j) \<le> moves_left (ts_task s j) - of_bool (i = j)"
proof -
  obtain w' es t' where "task_step (traced env) st (qs i) (ts_world s, []) (ts_task s i) = ((w', es), t')"
    by (metis surj_pair)
  with task_step_progress [OF this] show ?thesis by (simp add: move_def)
qed

lemma run_schedule_progress:
  "moves_left (ts_task (run_schedule env st qs s sch) i) \<le> moves_left (ts_task s i) - count_list sch i"
proof (induction sch arbitrary: s)
  case (Cons j sch)
  from Cons.IH [of "move env st qs s j"] move_progress [of env st qs s j i]
  show ?case by (auto split: if_splits)
qed simp

lemma moves_left_0: "moves_left t = 0 \<longleftrightarrow> t = Finished"
  by (cases t) simp_all

section \<open>A task alone\<close>

lemma ingest_step_begin:
  assumes "begin_request (traced env) st (w, []) q = ((w1, l1), r)"
  shows "ingest_step env st (w, []) q =
    (case r of None \<Rightarrow> (w1, l1) | Some m \<Rightarrow> fst (publish (traced env) (st_exchange st) (w1, l1) m))"
proof (cases q)
  case (Http_Event e)
  obtain w2 l2 x where new: "is_new (traced env) (st_ttl_secs st) (w, []) (ev_id e) = ((w2, l2), x)"
    by (metis surj_pair)
  show ?thesis
  proof (cases "validate_event e")
    case None
    with assms Http_Event new show ?thesis
      by (cases x rule: bool_result)
        (auto simp: begin_request_def ingest_step_def handle_event_def split: option.splits prod.splits sum.splits)
  next
    case (Some err)
    with assms Http_Event show ?thesis by (simp add: begin_request_def ingest_step_def handle_event_def)
  qed
next
  case (Tcp_Frame f)
  show ?thesis
  proof (cases "parse_frame env w f")
    case (Inl err)
    with assms Tcp_Frame show ?thesis
      by (simp add: begin_request_def ingest_step_def process_frame_def parse_frame_traced)
  next
    case (Inr m)
    obtain w2 l2 x where "is_new (traced env) (st_ttl_secs st) (w, []) (qm_id m) = ((w2, l2), x)"
      by (metis surj_pair)
    with assms Tcp_Frame Inr show ?thesis
      by (cases x rule: bool_result)
        (auto simp: begin_request_def ingest_step_def process_frame_def parse_frame_traced Let_def)
  qed
qed

lemma move_finished [simp]: "ts_task s i = Finished \<Longrightarrow> move env st qs s i = s"
  by (simp add: move_def task_step_def fun_upd_idem)

lemma publish_moves:
  assumes "ts_task s i = To_Publish m" and "ts_world s = w" and "ts_log s = L @ map (Pair i) l"
    and "publish (traced env) (st_exchange st) (w, l) m = ((w', l'), r)"
  shows "run_schedule env st qs s [i, i] =
    \<lparr> ts_world = w', ts_task = (ts_task s)(i := Finished), ts_log = L @ map (Pair i) l' \<rparr>"
proof (cases "to_vec env m")
  case (Inl e)
  with assms show ?thesis by (simp add: move_def task_step_def publish_def)
next
  case (Inr body)
  obtain w1 a where p: "basic_publish env w (publication_of (st_exchange st) body) = (w1, a)" by force
  show ?thesis
  proof (cases a)
    case (Inl e)
    with assms Inr p show ?thesis by (auto simp: move_def task_step_def publish_def)
  next
    case t: (Inr t)
    obtain w2 c where "await_confirm env w1 t = (w2, c)" by force
    with assms Inr p t show ?thesis
      by (cases c) (auto simp: move_def task_step_def publish_def)
  qed
qed

lemma run_alone:
  assumes "ts_task s i = Waiting"
    and "ingest_step env st (ts_world s, []) (qs i) = (w', es)"
  shows "run_schedule env st qs s [i, i, i] =
    \<lparr> ts_world = w', ts_task = (ts_task s)(i := Finished), ts_log = ts_log s @ map (Pair i) es \<rparr>"
proof -
  obtain w1 l1 r where b: "begin_request (traced env) st (ts_world s, []) (qs i) = ((w1, l1), r)"
    by (metis surj_pair)
  note step = ingest_step_begin [OF b]
  show ?thesis
  proof (cases r)
    case None
    with assms b step show ?thesis by (simp add: move_def task_step_def)
  next
    case (Some m)
    let ?s = "\<lparr> ts_world = w1, ts_task = (ts_task s)(i := To_Publish m), ts_log = ts_log s @ map (Pair i) l1 \<rparr>"
    have "move env st qs s i = ?s" using assms(1) b Some by (simp add: move_def task_step_def)
    moreover obtain x where "publish (traced env) (st_exchange st) (w1, l1) m = ((w', es), x)"
      using assms(2) step Some by (metis fst_conv option.simps(5) surj_pair)
    then have "run_schedule env st qs ?s [i, i] =
        \<lparr> ts_world = w', ts_task = (ts_task ?s)(i := Finished), ts_log = ts_log s @ map (Pair i) es \<rparr>"
      by (intro publish_moves) simp_all
    ultimately show ?thesis by simp
  qed
qed

end
