(* ===== verification/Ingest_Time.thy ===== *)
theory Ingest_Time
  imports Ingest_Steps
begin

text \<open>
  The interleaved requests of \<open>Ingest_Steps\<close> while keys expire. Redis drops a key when its time is up,
  so the filter of \<open>dedup.rs\<close> is one of a window: what it promises is that two registrations of one
  id, and with them two publications, lie at least \<open>ttl_secs\<close> seconds apart.
\<close>

section \<open>What the calls of a request keep\<close>

definition env_keeps :: "'w env \<Rightarrow> ('w \<Rightarrow> bool) \<Rightarrow> bool" where
  "env_keeps env P \<longleftrightarrow>
     (\<forall>w ttl k. P w \<longrightarrow> P (fst (redis_query env w (set_nx_args ttl k)))) \<and>
     (\<forall>w p. P w \<longrightarrow> P (fst (basic_publish env w p))) \<and>
     (\<forall>w t. P w \<longrightarrow> P (fst (await_confirm env w t)))"

lemma env_keepsD:
  assumes "env_keeps env P" and "P w"
  shows "redis_query env w (set_nx_args ttl k) = (w', a) \<Longrightarrow> P w'"
    and "basic_publish env w p = (w', b) \<Longrightarrow> P w'"
    and "await_confirm env w t = (w', c) \<Longrightarrow> P w'"
  using assms unfolding env_keeps_def by (metis fst_conv)+

lemma task_step_keeps:
  assumes keeps: "env_keeps env P" and "P w"
    and step: "task_step (traced env) st q (w, []) t = ((w', es), t')"
  shows "P w'"
proof (cases t)
  case Waiting
  obtain w1 l1 r where b: "begin_request (traced env) st (w, []) q = ((w1, l1), r)" by (metis surj_pair)
  with step Waiting have "w' = w1" by (auto simp: task_step_def split: option.splits)
  with begin_request_asks [OF b] env_keepsD(1) [OF assms(1,2)] assms(2) show ?thesis by auto
next
  case (To_Publish m)
  with step assms(2) env_keepsD(2) [OF assms(1,2)] show ?thesis
    by (auto simp: task_step_def split: sum.splits prod.splits)
next
  case (To_Confirm u)
  with step env_keepsD(3) [OF assms(1,2)] show ?thesis
    by (auto simp: task_step_def split: prod.splits)
next
  case Finished
  with step assms(2) show ?thesis by (simp add: task_step_def)
qed

lemma move_keeps:
  assumes "env_keeps env P" and "P (ts_world s)"
  shows "P (ts_world (move env st qs s i))"
proof -
  obtain w' es t' where "task_step (traced env) st (qs i) (ts_world s, []) (ts_task s i) = ((w', es), t')"
    by (metis surj_pair)
  with task_step_keeps [OF assms this] show ?thesis by (simp add: move_def)
qed

lemma run_schedule_keeps:
  "env_keeps env P \<Longrightarrow> P (ts_world s) \<Longrightarrow> P (ts_world (run_schedule env st qs s sch))"
  by (induction sch arbitrary: s) (simp_all add: move_keeps)

section \<open>Keys with a time to live\<close>

text \<open>
  Redis as documented, with expiry: \<open>now\<close> is the clock in seconds, which no call turns back, and
  \<open>deadline w k\<close> the time at which a key that is held is dropped. A command that answers OK found no
  living key and sets one that lives \<open>ttl\<close> seconds; no call shortens the life of a key that lives.
\<close>

definition redis_expiry :: "'w env \<Rightarrow> ('w \<Rightarrow> nat) \<Rightarrow> ('w \<Rightarrow> rstr \<Rightarrow> nat option) \<Rightarrow> bool" where
  "redis_expiry env now deadline \<longleftrightarrow>
     (\<forall>w ttl k w' v. redis_query env w (set_nx_args ttl k) = (w', Inr (Some v)) \<longrightarrow>
        (\<forall>t. deadline w k = Some t \<longrightarrow> t \<le> now w') \<and> deadline w' k = Some (now w' + unat ttl)) \<and>
     (\<forall>k t. env_keeps env (\<lambda>w. deadline w k = Some t \<or> t \<le> now w)) \<and>
     (\<forall>t. env_keeps env (\<lambda>w. t \<le> now w))"

text \<open>The move with which a task registers its id.\<close>

definition registers :: "'w env \<Rightarrow> app_state \<Rightarrow> (nat \<Rightarrow> ingest_request) \<Rightarrow> 'w tasks_state \<Rightarrow> nat \<Rightarrow> bool" where
  "registers env st qs s i \<longleftrightarrow>
     \<not> registered (calls_of i (ts_log s)) \<and> registered (calls_of i (ts_log (move env st qs s i)))"

lemma registers_asks:
  assumes "registers env st qs s i"
    and "task_ok (st_ttl_secs st) (request_id env (qs i)) (ts_task s i) (calls_of i (ts_log s))"
  shows "\<exists>v. redis_query env (ts_world s) (set_nx_args (st_ttl_secs st) (dedup_key (request_id env (qs i)))) =
    (ts_world (move env st qs s i), Inr (Some v))"
proof -
  obtain w' es t' where step:
    "task_step (traced env) st (qs i) (ts_world s, []) (ts_task s i) = ((w', es), t')" by (metis surj_pair)
  then have s': "ts_world (move env st qs s i) = w'" "ts_log (move env st qs s i) = ts_log s @ map (Pair i) es"
    by (simp_all add: move_def)
  with assms(1) have reg: "\<not> registered (calls_of i (ts_log s))" "registered (calls_of i (ts_log s) @ es)"
    by (simp_all add: registers_def)
  have "ts_task s i = Waiting"
    using assms(2) reg step
    by (cases "ts_task s i") (auto simp: registered_def task_step_def)
  then obtain r where b: "begin_request (traced env) st (ts_world s, []) (qs i) = ((w', es), r)"
    using step by (auto simp: task_step_def split: prod.splits option.splits)
  have "registered es" using reg assms(2) \<open>ts_task s i = Waiting\<close> by simp
  with begin_request_asks [OF b] s' show ?thesis by (auto simp: registered_def)
qed

lemma run_schedule_task_ok:
  "\<forall>i. task_ok (st_ttl_secs st) (request_id env (qs i)) (ts_task s i) (calls_of i (ts_log s)) \<Longrightarrow>
   task_ok (st_ttl_secs st) (request_id env (qs j))
     (ts_task (run_schedule env st qs s sch) j) (calls_of j (ts_log (run_schedule env st qs s sch)))"
proof (induction sch arbitrary: s)
  case (Cons i sch)
  obtain w' es t' where step:
    "task_step (traced env) st (qs i) (ts_world s, []) (ts_task s i) = ((w', es), t')" by (metis surj_pair)
  have "task_ok (st_ttl_secs st) (request_id env (qs k)) (ts_task (move env st qs s i) k)
      (calls_of k (ts_log (move env st qs s i)))" for k
    using task_step_ok(1) [OF step] Cons.prems by (simp add: move_def step)
  with Cons.IH show ?case by simp
qed simp

lemma run_schedule_registered:
  "registered (calls_of i (ts_log s)) \<Longrightarrow> registered (calls_of i (ts_log (run_schedule env st qs s sch)))"
proof (induction sch arbitrary: s)
  case (Cons j sch)
  have "registered (calls_of i (ts_log (move env st qs s j)))"
    using Cons.prems by (cases "i = j") (auto simp: move_def registered_def split: prod.split)
  with Cons.IH show ?case by simp
qed simp

text \<open>After a registration its key lives until its time is up, whatever is called.\<close>

lemma registered_lives:
  assumes ex: "redis_expiry env now deadline"
    and ask: "redis_query env w (set_nx_args ttl k) = (ts_world s, Inr (Some v))"
    and again: "redis_query env (ts_world (run_schedule env st qs s sch)) (set_nx_args ttl2 k) = (w', Inr (Some u))"
  shows "now (ts_world s) + unat ttl \<le> now w'"
proof -
  let ?T = "now (ts_world s) + unat ttl" and ?s = "run_schedule env st qs s sch"
  have keep: "env_keeps env (\<lambda>w. deadline w k = Some ?T \<or> ?T \<le> now w)"
    "env_keeps env (\<lambda>w. ?T \<le> now w)" using ex unfolding redis_expiry_def by blast+
  have "deadline (ts_world s) k = Some ?T" using ex ask unfolding redis_expiry_def by blast
  then have "deadline (ts_world ?s) k = Some ?T \<or> ?T \<le> now (ts_world ?s)"
    using run_schedule_keeps [OF keep(1), of s st qs sch] by simp
  then show ?thesis
    using again ex env_keepsD(1) [OF keep(2) _ again] unfolding redis_expiry_def by blast
qed

section \<open>A Redis with a clock\<close>

text \<open>Every question takes 400 seconds; the world is the time and the deadlines.\<close>

type_synonym slow_world = "nat \<times> (rstr \<Rightarrow> nat option)"

definition slow_redis :: "slow_world \<Rightarrow> rstr list \<Rightarrow> slow_world \<times> (service_error + rstr option)" where
  "slow_redis w args =
     (case w of (t, dl) \<Rightarrow>
        (case args of
           [_, k, _, _, _, ttl] \<Rightarrow>
             if (case dl k of Some e \<Rightarrow> t + 400 < e | None \<Rightarrow> False) then ((t + 400, dl), Inr None)
             else (case parse_nat ttl of
                     Some n \<Rightarrow> ((t + 400, dl(k \<mapsto> t + 400 + n)), Inr (Some (lit ''OK'')))
                   | None \<Rightarrow> ((t + 400, dl), Inl (lit ''ERR'')))
         | _ \<Rightarrow> ((t + 400, dl), Inl (lit ''ERR''))))"

definition slow_env :: "slow_world env" where
  "slow_env =
     \<lparr> clock_ms = (\<lambda>w. Some (1000 * fst w)), euc_kr_decode = map unat, redis_query = slow_redis,
       to_vec = (\<lambda>m. Inr (str_bytes (qm_id m))), amqp_call = (\<lambda>w q. (w, Inr ())),
       basic_publish = (\<lambda>w p. (w, Inr 0)), await_confirm = (\<lambda>w t. (w, Inr Confirm_Ack)) \<rparr>"

lemma slow_redis_nx:
  "slow_redis (t, dl) (set_nx_args ttl k) =
     (if (case dl k of Some e \<Rightarrow> t + 400 < e | None \<Rightarrow> False) then ((t + 400, dl), Inr None)
      else ((t + 400, dl(k \<mapsto> t + 400 + unat ttl)), Inr (Some (lit ''OK''))))"
  by (simp add: slow_redis_def set_nx_args_def parse_nat_dec_str)

lemma slow_expiry: "redis_expiry slow_env fst snd"
  by (auto simp: redis_expiry_def env_keeps_def slow_env_def slow_redis_nx split: option.splits)

end
