(* ===== verification/Ingest_Properties.thy ===== *)
theory Ingest_Properties
  imports Ingest_Time
begin

text \<open>
  The properties of the receiver: of validation, of the HTTP handler, and of what the HTTP and the TCP
  way together publish.
\<close>

lemma demo_nx_env: "redis_query env = demo_redis \<Longrightarrow>
   (\<And>w p. dw_keys (fst (basic_publish env w p)) = dw_keys w) \<Longrightarrow>
   (\<And>w t. dw_keys (fst (await_confirm env w t)) = dw_keys w) \<Longrightarrow> nx_env env demo_holds"
  using demo_redis_nx [of env] by (simp add: nx_env_def demo_holds_def)

lemma demo_nx_envs: "nx_env demo_env demo_holds" "nx_env failing_env demo_holds"
  by (rule demo_nx_env; simp add: demo_env_def failing_env_def)+

definition demo_event :: incoming_event where
  "demo_event = \<lparr> ev_id = lit ''202406180001'', ev_event_type = lit ''purchase'', ev_payload = JNull,
     ev_timestamp = None \<rparr>"

lemma demo_event_valid [simp]: "validate_event demo_event = None" "ev_id demo_event = lit ''202406180001''"
  by (simp_all add: validate_event_None demo_event_def)
    (simp add: lit_def utf8_len_def str_bytes_def encode_char_def id_byte_ok_def is_alnum_char_def
      is_digit_char_def)

lemma demo_frame_id: "frame_id demo_env (demo_frame ''0100'') = lit ''202406180001''"
  "frame_id failing_env (demo_frame ''0100'') = lit ''202406180001''"
  by (simp_all add: frame_id_def demo_frame_def fields_at [OF demo_decodes_ascii] demo_fields_ok)






text \<open>
  C21: the filter is one of a window of \<open>ttl_secs\<close>. With keys that expire, and however the requests are
  interleaved: when a task registers an id that another has registered before, at least \<open>ttl_secs\<close>
  seconds lie between the two registrations, and until then it has published nothing; so what is
  published twice under one id is published on registrations that far apart.
\<close>

theorem same_id_ttl_apart:
  assumes ex: "redis_expiry env now deadline"
    and s1: "s1 = run_schedule env st qs (tasks_start w) sch1" "registers env st qs s1 i"
    and s2: "s2 = run_schedule env st qs (move env st qs s1 i) sch2" "registers env st qs s2 j"
    and same: "request_id env (qs i) = request_id env (qs j)"
  shows "i \<noteq> j \<and> \<not> published (calls_of j (ts_log s2)) \<and>
    now (ts_world (move env st qs s1 i)) + unat (st_ttl_secs st) \<le> now (ts_world (move env st qs s2 j))"
proof -
  let ?ok = "\<lambda>s k. task_ok (st_ttl_secs st) (request_id env (qs k)) (ts_task s k) (calls_of k (ts_log s))"
  have ok1: "?ok s1 k" for k
    unfolding s1(1) by (rule run_schedule_task_ok) (simp add: tasks_start_def)
  have ok2: "?ok s2 k" for k
  proof -
    have "s2 = run_schedule env st qs (tasks_start w) (sch1 @ i # sch2)"
      unfolding s1(1) s2(1) by (simp add: run_schedule_append)
    then show ?thesis
      using run_schedule_task_ok [of st env qs "tasks_start w" k "sch1 @ i # sch2"]
      by (simp add: tasks_start_def)
  qed
  obtain v where v: "redis_query env (ts_world s1) (set_nx_args (st_ttl_secs st) (dedup_key (request_id env (qs i)))) =
      (ts_world (move env st qs s1 i), Inr (Some v))" using registers_asks [OF s1(2) ok1] by blast
  obtain u where u: "redis_query env (ts_world s2) (set_nx_args (st_ttl_secs st) (dedup_key (request_id env (qs i)))) =
      (ts_world (move env st qs s2 j), Inr (Some u))" using registers_asks [OF s2(2) ok2] same by auto
  have "registered (calls_of i (ts_log s2))"
    using s1(2) unfolding s2(1) registers_def by (simp add: run_schedule_registered)
  moreover have "\<not> registered (calls_of j (ts_log s2))" using s2(2) by (simp add: registers_def)
  ultimately have "i \<noteq> j" "\<not> published (calls_of j (ts_log s2))"
    using task_ok_registered [OF ok2] by blast+
  with registered_lives [OF ex v u [unfolded s2(1)]] show ?thesis unfolding s2(1) by blast
qed

lemma slow_registers:
  assumes "ts_task s i = Waiting" and "calls_of i (ts_log s) = []" and "qs i = Http_Event demo_event"
    and "\<forall>e. snd (ts_world s) (dedup_key (lit ''202406180001'')) = Some e \<longrightarrow> e \<le> fst (ts_world s) + 400"
  shows "registers slow_env st qs s i"
proof -
  obtain t dl where w: "ts_world s = (t, dl)" by force
  have len: "lit ''202406180001'' \<noteq> []" "\<not> 512 < byte_len (lit ''202406180001'')"
    by (simp_all add: lit_def utf8_len_def)
  have "\<not> (case dl (dedup_key (lit ''202406180001'')) of Some e \<Rightarrow> t + 400 < e | None \<Rightarrow> False)"
    using assms(4) w by (auto split: option.split)
  then show ?thesis
    using assms(1,2,3) w len
    by (simp add: registers_def move_def task_step_def begin_request_def is_new_def slow_env_def
        slow_redis_nx registered_def calls_of_Cons)
qed

theorem same_id_ttl_apart_witness:
  "fst (ts_world (move slow_env demo_state (\<lambda>_. Http_Event demo_event) (tasks_start (0, Map.empty)) 0)) + 300 \<le>
   fst (ts_world (move slow_env demo_state (\<lambda>_. Http_Event demo_event)
     (move slow_env demo_state (\<lambda>_. Http_Event demo_event) (tasks_start (0, Map.empty)) 0) 1))"
proof -
  let ?qs = "\<lambda>_. Http_Event demo_event"
  let ?s1 = "tasks_start (0, Map.empty) :: slow_world tasks_state"
  let ?s2 = "move slow_env demo_state ?qs ?s1 0"
  have len: "lit ''202406180001'' \<noteq> []" "\<not> 512 < byte_len (lit ''202406180001'')"
    by (simp_all add: lit_def utf8_len_def)
  have one: "registers slow_env demo_state ?qs ?s1 0"
    by (rule slow_registers) (simp_all add: tasks_start_def)
  have "ts_task ?s2 1 = Waiting" "calls_of 1 (ts_log ?s2) = []"
    "ts_world ?s2 = (400, [dedup_key (lit ''202406180001'') \<mapsto> 700])"
    using len
    by (simp_all add: move_def tasks_start_def task_step_def begin_request_def is_new_def slow_env_def
        slow_redis_nx demo_state_def calls_of_Cons)
  then have two: "registers slow_env demo_state ?qs ?s2 1"
    by (intro slow_registers) simp_all
  from same_id_ttl_apart [OF slow_expiry _ one _ two, of "(0, Map.empty)" "[]" "[]"]
  show ?thesis by (simp add: demo_state_def)
qed

text \<open>
  An id whose registration is not followed by a publication is lost. Once a request has registered
  its id, whatever became of its message (a message that does not serialise, a broker that fails), no
  later request with that id publishes, by HTTP or by TCP, until the key expires; a retry is taken
  for a duplicate.
\<close>

lemma registered_id_never_published_again:
  assumes "nx_env env holds"
    and "registered (snd (ingest_step env st (w, []) q))"
    and "\<And>k. holds (fst (ingest_step env st (w, []) q)) k \<Longrightarrow> holds w2 k"
    and "request_id env q' = request_id env q"
  shows "\<not> published (snd (ingest_step env st (w2, []) q'))"
proof -
  have "holds w2 (dedup_key (request_id env q'))"
    using mixed.handle_new [OF assms(1,2)] assms(3,4) by simp
  then show ?thesis by (rule mixed.held_not_published [OF assms(1)])
qed

lemma failed_publication_is_final:
  "rs_status (case snd (handle_event failing_env demo_state demo_world0 demo_event) of Ret r \<Rightarrow> r) = 500 \<and>
   \<not> published (snd (ingest_step failing_env demo_state
      (fst (ingest_step failing_env demo_state (demo_world0, []) (Http_Event demo_event)), [])
      (Tcp_Frame (demo_frame ''0100''))))"
proof
  have len: "lit ''202406180001'' \<noteq> []" "\<not> 512 < byte_len (lit ''202406180001'')"
    by (simp_all add: lit_def utf8_len_def)
  have new: "demo_redis demo_world0 (set_nx_args t (dedup_key i)) =
      (demo_world0\<lparr>dw_keys := [dedup_key i]\<rparr>, Inr (Some (lit ''OK'')))" for t i
    by (simp add: demo_redis_def set_nx_args_def demo_world0_def)
  show "rs_status (case snd (handle_event failing_env demo_state demo_world0 demo_event) of Ret r \<Rightarrow> r) = 500"
    using len by (simp add: handle_event_def is_new_def new publish_def)
  have "registered (snd (ingest_step failing_env demo_state (demo_world0, []) (Http_Event demo_event)))"
    using len
    by (simp add: ingest_step_def handle_event_def is_new_def new publish_def registered_def)
  then show "\<not> published (snd (ingest_step failing_env demo_state
      (fst (ingest_step failing_env demo_state (demo_world0, []) (Http_Event demo_event)), [])
      (Tcp_Frame (demo_frame ''0100''))))"
    by (rule registered_id_never_published_again [OF demo_nx_envs(2)])
      (simp_all add: request_id_def demo_frame_id)
qed



text \<open>
  C22: the status of the HTTP handler tells exactly which calls were made and how they went: 422 for an
  invalid event, with no call at all; otherwise 503 when the check failed, 409 when the id was known,
  202 when the message was sent and the broker's confirmation was read, and 500 when either failed.
\<close>

theorem handle_event_status:
  assumes "handle_event (traced env) st (w, []) e = ((w', es), Ret r)"
  shows "rs_status r =
      (if validate_event e \<noteq> None then 422
       else case hd es of
         Redis_Call a (Inl err) \<Rightarrow> 503
       | Redis_Call a (Inr None) \<Rightarrow> 409
       | _ \<Rightarrow> if \<exists>p t c. tl es = [Publish_Call p (Inr t), Confirm_Call t (Inr c)] then 202 else 500) \<and>
    (validate_event e \<noteq> None \<longrightarrow> es = [] \<and> w' = w)"
proof (cases "validate_event e")
  case (Some x)
  with assms validate_event_error [of e x] show ?thesis by (auto simp: handle_event_def)
next
  case None
  obtain w1 l1 a where new: "is_new (traced env) (st_ttl_secs st) (w, []) (ev_id e) = ((w1, l1), a)"
    by (metis surj_pair)
  from new show ?thesis
  proof (cases rule: is_new_traced)
    case (refused err)
    have "byte_len (ev_id e) \<le> 512" "ev_id e \<noteq> []" using None by (auto simp: validate_event_None)
    with new refused show ?thesis by (auto simp: is_new_def split: prod.splits sum.splits)
  next
    case (failed err)
    with assms None new show ?thesis by (auto simp: handle_event_def)
  next
    case known
    with assms None new show ?thesis by (auto simp: handle_event_def)
  next
    case (fresh v)
    obtain now where now: "clock_ms env w1 = Some now"
      using assms None new fresh by (cases "clock_ms env w1") (auto simp: handle_event_def)
    obtain w2 l2 b where pub: "publish (traced env) (st_exchange st) (w1, l1)
        (event_message e (millis_i64 now)) = ((w2, l2), b)" by (metis surj_pair)
    from publish_traced(1) [OF pub] obtain fs where fs: "l2 = l1 @ fs" "publish_calls fs"
      "b = Inr () \<longrightarrow> (\<exists>p t c. fs = [Publish_Call p (Inr t), Confirm_Call t (Inr c)])" by blast
    have bad: "b \<noteq> Inr () \<Longrightarrow> \<not> (\<exists>p t c. fs = [Publish_Call p (Inr t), Confirm_Call t (Inr c)])"
      using pub fs(1) fresh(1) by (auto simp: publish_def split: sum.splits prod.splits)
    show ?thesis
    proof (cases b)
      case (Inl err)
      with assms None new fresh now pub fs(1) bad show ?thesis by (auto simp: handle_event_def)
    next
      case (Inr u)
      with assms None new fresh now pub fs(1,3) show ?thesis by (auto simp: handle_event_def)
    qed
  qed
qed

theorem handle_event_status_witness:
  "\<exists>w es r. handle_event (traced demo_env) demo_state (demo_world0, []) demo_event = ((w, es), Ret r) \<and>
     rs_status r = 202 \<and> length es = 3"
proof -
  have len: "lit ''202406180001'' \<noteq> []" "\<not> 512 < byte_len (lit ''202406180001'')"
    by (simp_all add: lit_def utf8_len_def)
  have new: "demo_redis demo_world0 (set_nx_args t (dedup_key i)) =
      (demo_world0\<lparr>dw_keys := [dedup_key i]\<rparr>, Inr (Some (lit ''OK'')))" for t i
    by (simp add: demo_redis_def set_nx_args_def demo_world0_def)
  obtain w es r where run: "handle_event (traced demo_env) demo_state (demo_world0, []) demo_event =
      ((w, es), Ret r)" "length es = 3"
      "\<exists>a p t c. es = [Redis_Call a (Inr (Some (lit ''OK''))), Publish_Call p (Inr t), Confirm_Call t (Inr c)]"
    using len by (simp add: handle_event_def is_new_def new publish_def)
  then have "rs_status r = 202" using handle_event_status [OF run(1)] by auto
  with run show ?thesis by blast
qed

end
