(* ===== verification/Service_Properties.thy ===== *)
theory Service_Properties
  imports Startup Ingest_Properties
begin

text \<open>
  The properties of the receiver's start and its outer layers: the configuration, the topology it
  declares, the confirmation of a publication, the HTTP layers and the accept loop.
\<close>

section \<open>Configuration\<close>

text \<open>
  C36: the program starts only with a usable configuration: when \<open>from_env\<close> returns, the API key is the
  value of its variable and is not empty, every number fits its type, and every allowed address is
  one; and without a key (or with an empty one) it panics.
\<close>

theorem from_env_usable:
  assumes "from_env vs = Ret cfg"
  shows "config_ok cfg \<and> vs ''EASYPOS_SECRET_KEY'' = Some (api_key cfg) \<and> api_key cfg \<noteq> []"
proof -
  have "api_key_of vs = Ret (api_key cfg)"
    using assms unfolding from_env_def bind_rust_Ret_iff by auto
  then show ?thesis using from_env_ok [OF assms] api_key_of_Ret by blast
qed

text \<open>Only the key is set.\<close>

definition demo_vars :: vars where
  "demo_vars = (\<lambda>k. if k = ''EASYPOS_SECRET_KEY'' then Some (lit ''secret'') else None)"

lemma demo_numbers:
  "expect_unsigned 64 (lit ''300'') = Ret 300" "expect_unsigned 64 (lit ''100'') = Ret 100"
  "expect_unsigned 64 (lit ''1'') = Ret 1" "expect_unsigned 32 (lit ''20'') = Ret 20"
  "expect_unsigned 32 (lit ''50'') = Ret 50" "expect_unsigned 64 (lit ''65536'') = Ret 65536"
  "expect_unsigned 64 (lit ''1000'') = Ret 1000" "expect_unsigned 64 (lit ''10'') = Ret 10"
  "expect_unsigned 64 (lit ''8192'') = Ret 8192"
  by (simp_all add: lit_def expect_unsigned_def parse_unsigned_def parse_nat_def is_digit_char_def)

lemma empty_reads:
  "read_number val radix lim bound z [] = None" "read_given_char c [] = None"
  "read_separator sep i (read_number val radix lim bound z) [] = None"
  by (simp_all add: read_number_def read_given_char_def read_separator_def)

lemma empty_is_no_address: "parse_ip_addr [] = None"
proof -
  have "read_octets 4 0 [] [] = None"
    using read_octets.simps(2) [of 3 0 "[]" "[]"] by (simp add: empty_reads)
  then have v4: "read_ipv4_addr [] = None" by (simp add: read_ipv4_addr_def)
  then have "read_separator 58 0 read_ipv4_addr [] = None" by (simp add: read_separator_def)
  then have "read_groups 8 0 [] [] = (([], False), [])"
    using read_groups.simps(2) [of 7 0 "[]" "[]"] by (simp add: empty_reads)
  then have "read_ipv6_addr [] = None" by (simp add: read_ipv6_addr_def empty_reads)
  with v4 show ?thesis by (simp add: parse_ip_addr_def read_ip_addr_def)
qed

lemma no_allowed_ips: "parse_allowed_ips (lit '''') = []"
  by (simp add: lit_def parse_allowed_ips_def List.map_filter_def trim_def empty_is_no_address)

lemma demo_config:
  "\<exists>cfg. from_env demo_vars = Ret cfg \<and> api_key cfg = lit ''secret'' \<and> postgres_url cfg = None \<and>
     exchange_name cfg = lit ''events'' \<and> dlq_exchange cfg = lit ''events.dlq'' \<and>
     mysql_queue cfg = lit ''queue.transactions'' \<and> allowed_ips cfg = [] \<and>
     tcp_max_conn_per_ip cfg = 10"
  by (simp add: from_env_def no_allowed_ips demo_vars_def var_or_def var_or_else_def unwrap_or_def demo_numbers
      api_key_of_def postgres_url_of_def) (simp add: lit_def)

theorem from_env_usable_witness:
  "\<exists>cfg. from_env demo_vars = Ret cfg \<and> config_ok cfg \<and> api_key cfg = lit ''secret''"
proof -
  obtain cfg where "from_env demo_vars = Ret cfg" "api_key cfg = lit ''secret''"
    using demo_config by blast
  with from_env_usable [OF this(1)] show ?thesis by blast
qed


section \<open>The broker\<close>

text \<open>
  The topology a start declares, when every request succeeds: in an order the broker accepts (a
  queue is bound after it and its exchange exist), a message published on the exchange reaches
  exactly the configured queues, and a message a queue rejects reaches exactly the dead-letter queue
  named for it.
\<close>

lemma startup_topology:
  assumes "startup_connect (traced env) cfg (w, []) = ((w', l), Inr x)"
    and "exchange_name cfg \<noteq> dlq_exchange cfg"
  shows "\<exists>rs. l = map (\<lambda>q. Amqp_Call q (Inr ())) rs \<and> x = exchange_name cfg \<and>
    ordered_requests {} {} rs \<and>
    fanout_targets rs x = fst ` set (queues_of cfg) \<and>
    (\<forall>q. dead_letter_targets rs q = {d. (q, d) \<in> set (queues_of cfg)})"
proof -
  let ?rs = "connect_requests (rabbitmq_url cfg) (exchange_name cfg) (queues_of cfg) (dlq_exchange cfg)"
  have run: "run_requests (traced env) (w, []) ?rs = ((w', l), Inr ())" and x: "x = exchange_name cfg"
    using assms(1) by (auto simp: startup_connect_def connect_def split: prod.splits sum.splits)
  show ?thesis
    using run_requests_ok [OF run] x assms(2)
    by (intro exI [of _ ?rs]) (simp add: ordered_connect_requests fanout_connect_requests
        dead_letter_connect_requests)
qed

lemma demo_calls_succeed:
  "\<exists>w' l. run_requests (traced demo_env) (w, k) rs = ((w', l), Inr ())"
proof (induction rs arbitrary: w k)
  case (Cons r rs)
  have "amqp_call demo_env w r = (w, Inr ())" by (simp add: demo_env_def)
  with Cons.IH [of w "k @ [Amqp_Call r (Inr ())]"] show ?case by simp
qed simp

lemma startup_topology_witness:
  "\<exists>cfg w l rs. startup_connect (traced demo_env) cfg (demo_world0, []) = ((w, l), Inr (lit ''events'')) \<and>
     l = map (\<lambda>q. Amqp_Call q (Inr ())) rs \<and>
     fanout_targets rs (lit ''events'') = {lit ''queue.transactions''}"
proof -
  obtain cfg :: config where cfg: "postgres_url cfg = None" "exchange_name cfg = lit ''events''"
    "dlq_exchange cfg = lit ''events.dlq''" "mysql_queue cfg = lit ''queue.transactions''"
    using demo_config by blast
  obtain w l where run: "startup_connect (traced demo_env) cfg (demo_world0, []) = ((w, l), Inr (lit ''events''))"
    using demo_calls_succeed [of demo_world0 "[]" "connect_requests (rabbitmq_url cfg) (exchange_name cfg)
        (queues_of cfg) (dlq_exchange cfg)"] cfg(2)
    by (auto simp: startup_connect_def connect_def)
  have ne: "exchange_name cfg \<noteq> dlq_exchange cfg" unfolding cfg by (simp add: lit_def)
  show ?thesis using startup_topology [OF run ne] run cfg(1,4) by (auto simp: queues_of_def)
qed

text \<open>
  A message the broker refuses counts as published: a negative acknowledgement is a value of the
  confirmation, not an error, so \<open>publish\<close> returns \<open>Ok\<close> on it and the handler answers 202 for an
  event that no queue has, and the id stays registered.
\<close>

lemma nack_is_accepted:
  assumes "validate_event e = None"
    and "is_new env (st_ttl_secs st) w (ev_id e) = (w1, Inr True)" and "clock_ms env w1 = Some now"
    and "to_vec env (event_message e (millis_i64 now)) = Inr body"
    and "basic_publish env w1 (publication_of (st_exchange st) body) = (w2, Inr t)"
    and "await_confirm env w2 t = (w3, Inr Confirm_Nack)"
  shows "\<exists>r. handle_event env st w e = (w3, Ret r) \<and> rs_status r = 202"
  using assms by (simp add: handle_event_def publish_def)

lemma nack_is_accepted_witness:
  "\<exists>w r. handle_event nack_env demo_state demo_world0 demo_event = (w, Ret r) \<and> rs_status r = 202 \<and>
     dw_published w = []"
proof -
  let ?w = "demo_world0\<lparr>dw_keys := [dedup_key (lit ''202406180001'')]\<rparr>"
  have "lit ''202406180001'' \<noteq> []" "\<not> 512 < byte_len (lit ''202406180001'')"
    by (simp_all add: lit_def utf8_len_def)
  then have "is_new nack_env (st_ttl_secs demo_state) demo_world0 (ev_id demo_event) = (?w, Inr True)"
    by (simp add: is_new_def demo_redis_def set_nx_args_def demo_world0_def)
  from nack_is_accepted [OF demo_event_valid(1) this, of 1000 _ ?w 0 ?w]
  show ?thesis by (auto simp: demo_world0_def)
qed

section \<open>The HTTP layers\<close>

text \<open>
  C23: no request reaches the event handler without the key. In a program that started, a request to
  \<open>/events\<close> whose key header is missing, unreadable or different from the configured key in any byte
  is answered 429 or 401 and nothing is called; every other way of failing comes after the key.
\<close>

theorem events_need_key:
  assumes "from_env vs = Ret cfg" and "rq_path rq = lit ''/events''"
    and "\<And>s. Option.bind (rq_api_key rq) (lib_to_str libs) = Some s \<Longrightarrow> str_bytes s \<noteq> str_bytes (api_key cfg)"
    and "http_app env libs cfg st g w rq = (g', w', r)"
  shows "w' = w \<and> (\<exists>p. r = Ret p \<and> reply_status p \<in> {401, 429})"
proof -
  have key: "api_key cfg \<noteq> []" using from_env_ok [OF assms(1)] by (simp add: config_ok_def)
  have "0 < length (str_bytes (api_key cfg))"
    using key by (cases "api_key cfg") (simp_all add: str_bytes_def encode_char_nonempty)
  then have "str_bytes (api_key cfg) \<noteq> str_bytes []" by (auto simp: str_bytes_def)
  then have "http_routes env libs cfg st w rq = (w, Ret (Plain 401 (lit ''unauthorized'')))"
    using assms(2,3)
    by (auto simp: http_routes_def api_key_middleware_def constant_time_eq_iff Let_def
        split: option.split)
  then show ?thesis
    using assms(4)
    by (auto simp: http_app_def rate_limit_middleware_def reply_status_def Let_def
        split: prod.splits bool.splits)
qed

definition demo_libs :: "unit http_libs" where
  "demo_libs = \<lparr> lib_check_key = (\<lambda>g ip. (True, g)), lib_to_str = (\<lambda>b. Some (map unat b)),
     lib_extract = (\<lambda>n b. Inr demo_event) \<rparr>"

theorem events_need_key_witness:
  "\<exists>cfg p. from_env demo_vars = Ret cfg \<and>
     http_app demo_env demo_libs cfg demo_state () demo_world0
       \<lparr> rq_peer = unspecified_v4, rq_method = Post, rq_path = lit ''/events'', rq_api_key = None,
         rq_body = [] \<rparr> = ((), demo_world0, Ret p) \<and> reply_status p \<in> {401, 429}"
proof -
  obtain cfg where cfg: "from_env demo_vars = Ret cfg" using demo_config by blast
  let ?rq = "\<lparr> rq_peer = unspecified_v4, rq_method = Post, rq_path = lit ''/events'', rq_api_key = None,
      rq_body = [] \<rparr>"
  obtain g w r where run: "http_app demo_env demo_libs cfg demo_state () demo_world0 ?rq = (g, w, r)"
    by (metis surj_pair)
  have "w = demo_world0 \<and> (\<exists>p. r = Ret p \<and> reply_status p \<in> {401, 429})"
    by (rule events_need_key [OF cfg _ _ run]) simp_all
  with cfg run show ?thesis by auto
qed

section \<open>The accept loop\<close>

lemma run_allowed:
  "conn_run (accept_admit allowed) release (t, live) es = (t', live') \<Longrightarrow> allowed \<noteq> [] \<Longrightarrow>
   set_mset live \<subseteq> set allowed \<Longrightarrow> set_mset live' \<subseteq> set allowed"
proof (induction es arbitrary: t live)
  case Nil
  then show ?case by (simp add: conn_run_def)
next
  case (Cons ev es)
  obtain t1 live1 where st: "conn_step (accept_admit allowed) release (t, live) ev = (t1, live1)"
    by force
  have "set_mset live1 \<subseteq> set allowed"
    using st Cons.prems(2,3)
    by (cases ev) (auto simp: accept_admit_cases split: if_splits prod.splits bool.splits dest: in_diffD)
  moreover have "conn_run (accept_admit allowed) release (t1, live1) es = (t', live')"
    using Cons.prems(1) st by (simp add: conn_run_def)
  ultimately show ?case using Cons.IH Cons.prems(2) by blast
qed

text \<open>
  The limits of the accept loop: after any sequence of connections and hangups, the live
  connections are at most \<open>max_total\<close> and at most \<open>max_per_ip\<close> from each address, the tracker counts
  exactly them, and with a non-empty allow list all of them come from it. (Each operation of the
  tracker in one step; their interleaving is another property.)
\<close>

lemma accept_loop_limits:
  assumes "from_env vs = Ret cfg"
    and "conn_run (accept_admit (allowed_ips cfg)) release (listener_start cfg, {#}) es = (t, live)"
  shows "size live \<le> tcp_max_connections cfg \<and> (\<forall>ip. count live ip \<le> tcp_max_conn_per_ip cfg) \<and>
    total t = size live \<and> ip_count t = count live \<and>
    (allowed_ips cfg \<noteq> [] \<longrightarrow> set_mset live \<subseteq> set (allowed_ips cfg))"
proof -
  have inv: "tracker_inv (listener_start cfg)"
    using from_env_ok [OF assms(1)] by (simp add: listener_start_def config_ok_def tracker_new_inv)
  have zero: "total (listener_start cfg) = 0" "ip_count (listener_start cfg) = (\<lambda>_. 0)"
    by (simp_all add: listener_start_def)
  have "size live \<le> tcp_max_connections cfg \<and> count live ip \<le> tcp_max_conn_per_ip cfg" for ip
    using accept_limiter.live_within_limits [OF inv zero assms(2), of ip]
    by (simp add: listener_start_def)
  moreover have "total t = size live \<and> ip_count t = count live"
    using accept_limiter.run_agrees [OF inv _ _ assms(2)] zero by (simp add: fun_eq_iff)
  moreover have "allowed_ips cfg \<noteq> [] \<longrightarrow> set_mset live \<subseteq> set (allowed_ips cfg)"
    using run_allowed [OF assms(2)] by simp
  ultimately show ?thesis by blast
qed

lemma accept_loop_limits_demo:
  "\<exists>cfg t live. from_env demo_vars = Ret cfg \<and>
     conn_run (accept_admit (allowed_ips cfg)) release (listener_start cfg, {#})
       [Open_Conn unspecified_v4, Open_Conn unspecified_v4, Close_Conn unspecified_v4] = (t, live) \<and>
     total t = size live"
proof -
  obtain cfg where cfg: "from_env demo_vars = Ret cfg" using demo_config by blast
  obtain t live where run: "conn_run (accept_admit (allowed_ips cfg)) release (listener_start cfg, {#})
       [Open_Conn unspecified_v4, Open_Conn unspecified_v4, Close_Conn unspecified_v4] = (t, live)"
    by force
  from accept_loop_limits [OF cfg run] cfg run show ?thesis by blast
qed

text \<open>
  The allow list fails open: entries that are no addresses are dropped in silence, so when none of
  them parses (a list of networks in prefix notation, for one) the list is empty, which allows every
  address.
\<close>

lemma allow_list_fails_open:
  assumes "\<forall>p \<in> set (split_on 44 s). parse_ip_addr (trim p) = None"
  shows "parse_allowed_ips s = [] \<and> fst (accept_conn (parse_allowed_ips s) t ip) \<noteq> Blocked_Ip"
proof -
  have "filter (\<lambda>p. parse_ip_addr (trim p) \<noteq> None) (split_on 44 s) = []"
    using assms by (simp add: filter_empty_conv)
  then have "parse_allowed_ips s = []" by (simp add: parse_allowed_ips_def List.map_filter_def)
  then show ?thesis by (simp add: accept_conn_def split: prod.split sum.split)
qed

lemma prefix_is_no_address: "parse_ip_addr (trim (lit ''10.0.0.0/24'')) = None"
  by (simp add: lit_def trim_def is_ws_def) code_simp

lemma allow_list_fails_open_witness:
  "parse_allowed_ips (lit ''10.0.0.0/24'') = [] \<and>
   fst (accept_conn (parse_allowed_ips (lit ''10.0.0.0/24'')) (tracker_new 1 1) unspecified_v4) \<noteq> Blocked_Ip"
proof (rule allow_list_fails_open)
  have "split_on 44 (lit ''10.0.0.0/24'') = [lit ''10.0.0.0/24'']" by (simp add: lit_def)
  then show "\<forall>p \<in> set (split_on 44 (lit ''10.0.0.0/24'')). parse_ip_addr (trim p) = None"
    by (simp add: prefix_is_no_address)
qed

end
