(* ===== verification/Listener_Tasks.thy ===== *)
theory Listener_Tasks
  imports Programs Service_Properties
begin

text \<open>
  One call of \<open>tcp_listener::start\<close> with its tasks: connections are accepted or refused by the filter and
  the tracker, an accepted one becomes a task with its own buffer, and the reads of all of them come in
  any order. A task that ends, by the peer, by an error or by a panic, reports it and drops its guard.
  One read with the frames it completes is one step here; the calls to Redis and the broker inside
  it are interleaved in \<open>Ingest_Steps\<close>, the counters of the tracker in \<open>Tracker_Steps\<close>.
\<close>

section \<open>The tasks\<close>

record 'w listener =
  ls_world :: 'w
  ls_tracker :: tracker
  ls_conns :: "nat \<Rightarrow> (ip_addr \<times> conn) option"
  ls_next :: nat

datatype listener_event = Accepts ip_addr | Reads nat read_event

definition listener0 :: "config \<Rightarrow> 'w \<Rightarrow> 'w listener" where
  "listener0 cfg w =
     \<lparr> ls_world = w, ls_tracker = listener_start cfg, ls_conns = (\<lambda>_. None), ls_next = 0 \<rparr>"

definition task_ended ::
  "'w http_post \<Rightarrow> (io_kind \<Rightarrow> rstr) \<Rightarrow> notifier option \<Rightarrow> 'w listener \<Rightarrow> nat \<Rightarrow> ip_addr \<Rightarrow> 'w \<Rightarrow> conn_end \<Rightarrow>
   'w listener" where
  "task_ended post error_text nt s i ip w e =
     s\<lparr> ls_world := report_end post error_text nt ip w e,
        ls_tracker := release (ls_tracker s) ip,
        ls_conns := (ls_conns s)(i := None) \<rparr>"

definition listener_turn ::
  "'w env \<Rightarrow> app_state \<Rightarrow> (nat \<Rightarrow> 'w writer) \<Rightarrow> 'w http_post \<Rightarrow> (io_kind \<Rightarrow> rstr) \<Rightarrow> notifier option \<Rightarrow>
   config \<Rightarrow> 'w listener \<Rightarrow> listener_event \<Rightarrow> 'w listener" where
  "listener_turn env st write post error_text nt cfg s ev =
     (case ev of
        Accepts ip \<Rightarrow>
          (case accept_conn (allowed_ips cfg) (ls_tracker s) ip of
             (Accepted, t) \<Rightarrow>
               s\<lparr> ls_tracker := t, ls_conns := (ls_conns s)(ls_next s \<mapsto> (ip, conn_new)),
                  ls_next := ls_next s + 1 \<rparr>
           | (_, t) \<Rightarrow> s\<lparr> ls_tracker := t \<rparr>)
      | Reads i rd \<Rightarrow>
          (case ls_conns s i of
             None \<Rightarrow> s
           | Some (ip, c) \<Rightarrow>
               (case on_read env st (write i) (tcp_max_frame_bytes cfg) (ls_world s) c rd of
                  (w', Inr c') \<Rightarrow> s\<lparr> ls_world := w', ls_conns := (ls_conns s)(i \<mapsto> (ip, c')) \<rparr>
                | (w', Inl e) \<Rightarrow> task_ended post error_text nt s i ip w' e)))"

definition listener_tasks ::
  "'w env \<Rightarrow> app_state \<Rightarrow> (nat \<Rightarrow> 'w writer) \<Rightarrow> 'w http_post \<Rightarrow> (io_kind \<Rightarrow> rstr) \<Rightarrow> notifier option \<Rightarrow>
   config \<Rightarrow> 'w listener \<Rightarrow> listener_event list \<Rightarrow> 'w listener" where
  "listener_tasks env st write post error_text nt cfg =
     foldl (listener_turn env st write post error_text nt cfg)"

section \<open>The tasks keep the limits\<close>

text \<open>The addresses of the live tasks, and what makes a state well formed: an index is used once.\<close>

definition live_ips :: "'w listener \<Rightarrow> ip_addr multiset" where
  "live_ips s = image_mset (\<lambda>i. fst (the (ls_conns s i))) (mset_set (dom (ls_conns s)))"

definition indexed :: "'w listener \<Rightarrow> bool" where
  "indexed s \<longleftrightarrow> dom (ls_conns s) \<subseteq> {..<ls_next s}"

lemma indexed_finite: "indexed s \<Longrightarrow> finite (dom (ls_conns s))"
  unfolding indexed_def by (metis finite_lessThan finite_subset)

lemma live_ips_upd:
  assumes "finite (dom m)"
  shows "image_mset (\<lambda>j. fst (the ((m(i \<mapsto> (ip, c))) j))) (mset_set (dom (m(i \<mapsto> (ip, c))))) =
    add_mset ip (image_mset (\<lambda>j. fst (the (m j))) (mset_set (dom m - {i})))"
proof -
  have "image_mset (\<lambda>j. fst (the ((m(i \<mapsto> (ip, c))) j))) (mset_set (dom m - {i})) =
      image_mset (\<lambda>j. fst (the (m j))) (mset_set (dom m - {i}))"
    using assms by (intro image_mset_cong) auto
  then show ?thesis using assms by (simp add: mset_set.insert_remove)
qed

lemma live_ips_gone:
  assumes "finite (dom m)" and "m i = Some (ip, c)"
  shows "image_mset (\<lambda>j. fst (the (m j))) (mset_set (dom m)) =
    add_mset ip (image_mset (\<lambda>j. fst (the (m j))) (mset_set (dom m - {i})))"
  using live_ips_upd [OF assms(1), of i ip c] assms(2) by (simp add: map_upd_triv)

text \<open>
  What a turn is to the tracker: an opening, a closing of the address of a live task, or nothing.
\<close>

definition conn_events :: "'w listener \<Rightarrow> 'w listener \<Rightarrow> listener_event \<Rightarrow> ip_addr conn_event list" where
  "conn_events s s' ev =
     (case ev of
        Accepts ip \<Rightarrow> [Open_Conn ip]
      | Reads i rd \<Rightarrow>
          (case (ls_conns s i, ls_conns s' i) of
             (Some (ip, _), None) \<Rightarrow> [Close_Conn ip]
           | _ \<Rightarrow> []))"

lemma turn_indexed:
  "indexed s \<Longrightarrow> indexed (listener_turn env st wr post et nt cfg s ev)"
  by (fastforce simp: indexed_def listener_turn_def task_ended_def
      split: listener_event.split prod.split accept_outcome.split option.split sum.split)

lemma turn_refines:
  assumes "indexed s" and s'_def: "s' = listener_turn env st wr post et nt cfg s ev"
  shows "(ls_tracker s', live_ips s') =
    conn_run (accept_admit (allowed_ips cfg)) release (ls_tracker s, live_ips s) (conn_events s s' ev)"
proof (cases ev)
  case (Accepts ip)
  obtain o1 t where a: "accept_conn (allowed_ips cfg) (ls_tracker s) ip = (o1, t)" by force
  have new: "dom (ls_conns s) - {ls_next s} = dom (ls_conns s)"
    using assms(1) by (auto simp: indexed_def)
  show ?thesis
  proof (cases "o1 = Accepted")
    case True
    with a Accepts have s': "ls_tracker s' = t" "ls_conns s' = (ls_conns s)(ls_next s \<mapsto> (ip, conn_new))"
      by (simp_all add: s'_def listener_turn_def)
    have "live_ips s' = add_mset ip (live_ips s)"
      using live_ips_upd [OF indexed_finite [OF assms(1)], of "ls_next s" ip conn_new]
      unfolding live_ips_def s' new .
    with s'(1) True a Accepts show ?thesis
      by (simp add: conn_events_def conn_run_def accept_admit_def)
  next
    case False
    with a Accepts have "ls_tracker s' = t" "ls_conns s' = ls_conns s"
      by (auto simp: s'_def listener_turn_def split: accept_outcome.split)
    with False a Accepts show ?thesis
      by (simp add: conn_events_def conn_run_def accept_admit_def live_ips_def)
  qed
next
  case (Reads i rd)
  show ?thesis
  proof (cases "ls_conns s i")
    case None
    with Reads show ?thesis by (simp add: s'_def listener_turn_def conn_events_def conn_run_def)
  next
    case (Some x)
    obtain ip c where x: "x = (ip, c)" by force
    obtain w' r where rd: "on_read env st (wr i) (tcp_max_frame_bytes cfg) (ls_world s) c rd = (w', r)" by force
    note gone = live_ips_gone [OF indexed_finite [OF assms(1)] Some [unfolded x]]
    show ?thesis
    proof (cases r)
      case (Inl e)
      with Reads Some x rd have s': "ls_tracker s' = release (ls_tracker s) ip"
        "ls_conns s' = (ls_conns s)(i := None)"
        by (simp_all add: s'_def listener_turn_def task_ended_def)
      have "live_ips s' = image_mset (\<lambda>j. fst (the (ls_conns s j))) (mset_set (dom (ls_conns s) - {i}))"
        unfolding live_ips_def s'(2) using indexed_finite [OF assms(1)]
        by (auto intro!: image_mset_cong)
      then have "live_ips s = add_mset ip (live_ips s')" using gone by (simp add: live_ips_def)
      with s' Reads Some x show ?thesis
        by (simp add: conn_events_def conn_run_def)
    next
      case (Inr c')
      with Reads Some x rd have s': "ls_tracker s' = ls_tracker s" "ls_conns s' = (ls_conns s)(i \<mapsto> (ip, c'))"
        by (simp_all add: s'_def listener_turn_def)
      have "live_ips s' = live_ips s"
        using live_ips_upd [OF indexed_finite [OF assms(1)], of i ip c'] gone unfolding live_ips_def s'(2)
        by simp
      with s' Reads Some x show ?thesis by (simp add: conn_events_def conn_run_def)
    qed
  qed
qed

text \<open>A run of the tasks is a run of the limiter, over the openings and closings it makes.\<close>

lemma tasks_refine:
  "indexed s \<Longrightarrow> \<exists>es. conn_run (accept_admit (allowed_ips cfg)) release (ls_tracker s, live_ips s) es =
     (ls_tracker (listener_tasks env st wr post et nt cfg s evs),
      live_ips (listener_tasks env st wr post et nt cfg s evs)) \<and>
   indexed (listener_tasks env st wr post et nt cfg s evs)"
proof (induction evs arbitrary: s)
  case Nil
  then show ?case by (intro exI [of _ "[]"]) (simp add: listener_tasks_def conn_run_def)
next
  case (Cons ev evs)
  let ?s = "listener_turn env st wr post et nt cfg s ev"
  from Cons.IH [OF turn_indexed [OF Cons.prems]] obtain es where
    es: "conn_run (accept_admit (allowed_ips cfg)) release (ls_tracker ?s, live_ips ?s) es =
      (ls_tracker (listener_tasks env st wr post et nt cfg ?s evs),
       live_ips (listener_tasks env st wr post et nt cfg ?s evs))"
    "indexed (listener_tasks env st wr post et nt cfg ?s evs)" by blast
  have "conn_run (accept_admit (allowed_ips cfg)) release (ls_tracker s, live_ips s) (conn_events s ?s ev @ es) =
      conn_run (accept_admit (allowed_ips cfg)) release (ls_tracker ?s, live_ips ?s) es"
    using turn_refines [OF Cons.prems refl, of env st wr post et nt cfg ev, symmetric]
    by (simp add: conn_run_def)
  with es show ?case by (intro exI [of _ "conn_events s ?s ev @ es"]) (simp add: listener_tasks_def)
qed

lemma listener0_facts:
  "indexed (listener0 cfg w)" "live_ips (listener0 cfg w) = {#}"
  "ls_tracker (listener0 cfg w) = listener_start cfg"
  by (simp_all add: listener0_def indexed_def live_ips_def)



lemma demo_listener_config:
  "\<exists>cfg. from_env demo_vars = Ret cfg \<and> allowed_ips cfg = [] \<and> tcp_max_conn_per_ip cfg = 10 \<and>
     tcp_max_connections cfg = 1000 \<and> tcp_max_frame_bytes cfg = 8192"
  by (simp add: from_env_def no_allowed_ips demo_vars_def var_or_def var_or_else_def unwrap_or_def demo_numbers
      api_key_of_def postgres_url_of_def) (simp add: lit_def)



section \<open>Connections do not mix\<close>

text \<open>The bytes a connection was given, and the state of a connection that was fed with them alone.\<close>

fun reads_of :: "nat \<Rightarrow> listener_event list \<Rightarrow> bytes list" where
  "reads_of i [] = []"
| "reads_of i (Reads j (Read_Bytes b) # evs) = (if i = j then b # reads_of i evs else reads_of i evs)"
| "reads_of i (_ # evs) = reads_of i evs"

definition fed :: "nat \<Rightarrow> conn \<Rightarrow> bytes list \<Rightarrow> bool" where
  "fed n c chunks \<longleftrightarrow>
     (\<exists>fs. foldl (feed (extract_frame n)) ([], []) chunks = (buf c, fs) \<and>
        frame_count c = length fs \<and> total_bytes c = length (concat chunks))"

lemma reads_of_append: "reads_of i (evs @ fs) = reads_of i evs @ reads_of i fs"
  by (induction i evs rule: reads_of.induct) simp_all

lemma fed_new [simp]: "fed n conn_new []"
  by (simp add: fed_def conn_new_def)

lemma on_read_fed:
  assumes "on_read env st wr n w c rd = (w', Inr c')" and "fed n c chunks"
  shows "\<exists>b. rd = Read_Bytes b \<and> fed n c' (chunks @ [b])"
proof (cases rd)
  case (Read_Bytes b)
  let ?c = "c\<lparr>total_bytes := total_bytes c + length b, buf := buf c @ b\<rparr>"
  obtain fs r where t: "take_frames (extract_frame n) (length (buf c @ b)) (buf c @ b) = (fs, r)" by force
  have "drain_loop env st wr n w ?c = after_serving ?c r (length fs) (serve_frames env st wr w fs)"
    using t by (intro drain_loop_serves) simp_all
  moreover have "drain_loop env st wr n w ?c = (w', Inr c')"
    using assms(1) Read_Bytes by (simp add: on_read_def split: if_splits)
  ultimately have "c' = ?c\<lparr>buf := r, frame_count := frame_count c + length fs\<rparr>"
    by (auto simp: after_serving_def split: prod.splits sum.splits)
  with assms(2) Read_Bytes t show ?thesis by (auto simp: fed_def feed_def)
qed (use assms in \<open>simp_all add: on_read_def\<close>)

lemma task_history:
  assumes "indexed s0" and "ls_conns s0 = (\<lambda>_. None)"
    and run_def: "run = listener_tasks env st wr post et nt cfg s0"
  shows "ls_conns (run evs) i = Some (ip, c) \<Longrightarrow>
    \<exists>evs1 evs2. evs = evs1 @ Accepts ip # evs2 \<and> fed (tcp_max_frame_bytes cfg) c (reads_of i evs2)"
proof (induction evs arbitrary: c rule: rev_induct)
  case Nil
  then show ?case using assms(2) by (simp add: run_def listener_tasks_def)
next
  case (snoc ev evs)
  let ?s = "run evs"
  have ix: "indexed ?s" unfolding run_def using tasks_refine [OF assms(1)] by blast
  have turn: "run (evs @ [ev]) = listener_turn env st wr post et nt cfg ?s ev"
    by (simp add: run_def listener_tasks_def)
  have longer: ?case if "ls_conns ?s i = Some (ip, c)" "reads_of i [ev] = []"
  proof -
    from snoc.IH [OF that(1)] obtain evs1 evs2 where
      "evs = evs1 @ Accepts ip # evs2" "fed (tcp_max_frame_bytes cfg) c (reads_of i evs2)" by blast
    with that(2) show ?thesis
      by (intro exI [of _ evs1] exI [of _ "evs2 @ [ev]"]) (simp add: reads_of_append)
  qed
  show ?case
  proof (cases ev)
    case (Accepts a)
    obtain o1 t where acc: "accept_conn (allowed_ips cfg) (ls_tracker ?s) a = (o1, t)" by force
    show ?thesis
    proof (cases "o1 = Accepted \<and> i = ls_next ?s")
      case True
      then have "ip = a" "c = conn_new"
        using snoc.prems Accepts acc unfolding turn by (simp_all add: listener_turn_def)
      with Accepts show ?thesis by (intro exI [of _ evs] exI [of _ "[]"]) simp
    next
      case False
      then have "ls_conns ?s i = Some (ip, c)"
        using snoc.prems Accepts acc unfolding turn
        by (auto simp: listener_turn_def split: accept_outcome.splits)
      with Accepts show ?thesis by (intro longer) simp_all
    qed
  next
    case (Reads j rd)
    show ?thesis
    proof (cases "ls_conns ?s j")
      case None
      then have "ls_conns ?s i = Some (ip, c)" "i \<noteq> j"
        using snoc.prems Reads unfolding turn by (auto simp: listener_turn_def)
      with Reads show ?thesis by (intro longer; cases rd) simp_all
    next
      case (Some x)
      obtain a d where x: "x = (a, d)" by force
      obtain w' r where rd: "on_read env st (wr j) (tcp_max_frame_bytes cfg) (ls_world ?s) d rd = (w', r)" by force
      show ?thesis
      proof (cases "i = j")
        case True
        with snoc.prems Reads Some x rd have r: "r = Inr c" "a = ip"
          unfolding turn by (auto simp: listener_turn_def task_ended_def split: sum.splits)
        from snoc.IH [of d] Some x True r(2) obtain evs1 evs2 where
          h: "evs = evs1 @ Accepts ip # evs2" "fed (tcp_max_frame_bytes cfg) d (reads_of i evs2)" by auto
        from on_read_fed [OF rd [unfolded r] h(2)] obtain b where
          "rd = Read_Bytes b" "fed (tcp_max_frame_bytes cfg) c (reads_of i evs2 @ [b])" by blast
        with h(1) Reads True show ?thesis
          by (intro exI [of _ evs1] exI [of _ "evs2 @ [ev]"]) (simp add: reads_of_append)
      next
        case False
        with snoc.prems Reads Some x rd have "ls_conns ?s i = Some (ip, c)"
          unfolding turn by (cases r) (simp_all add: listener_turn_def task_ended_def)
        with False Reads show ?thesis by (intro longer; cases rd) simp_all
      qed
    qed
  qed
qed

text \<open>
  C35: the connections do not mix. In any interleaving of accepts and reads, a live connection was
  accepted from its address, and its buffer and its counts are those of its own bytes cut into
  frames, in the chunks in which they came; what the others send, and what Redis or the broker do,
  changes nothing of it.
\<close>

theorem listener_connections_apart:
  assumes s: "s = listener_tasks env st wr post et nt cfg (listener0 cfg w) evs"
    and live: "ls_conns s i = Some (ip, c)"
  shows "\<exists>evs1 evs2 fs. evs = evs1 @ Accepts ip # evs2 \<and>
    foldl (feed (extract_frame (tcp_max_frame_bytes cfg))) ([], []) (reads_of i evs2) = (buf c, fs) \<and>
    frame_count c = length fs \<and> total_bytes c = length (concat (reads_of i evs2))"
  using task_history [OF listener0_facts(1) _ refl live [unfolded s]] unfolding fed_def
  by (auto simp: listener0_def)

text \<open>Two connections whose reads arrive in turn.\<close>

abbreviation two_connections :: "listener_event list" where
  "two_connections \<equiv> [Accepts unspecified_v4, Accepts unspecified_v4, Reads 1 (Read_Bytes [49, 50]),
     Reads 0 (Read_Bytes [48])]"

theorem listener_connections_apart_witness:
  "\<exists>cfg c evs1 evs2 fs. from_env demo_vars = Ret cfg \<and>
     ls_conns (listener_tasks demo_env demo_state (\<lambda>i. demo_write) (\<lambda>w u b. (w, Inr ())) (\<lambda>k. []) None cfg
       (listener0 cfg demo_world0) two_connections) 0 = Some (unspecified_v4, c) \<and> buf c = [48] \<and>
     two_connections = evs1 @ Accepts unspecified_v4 # evs2 \<and>
     foldl (feed (extract_frame (tcp_max_frame_bytes cfg))) ([], []) (reads_of 0 evs2) = (buf c, fs)"
proof -
  obtain cfg where cfg: "from_env demo_vars = Ret cfg" "allowed_ips cfg = []" "tcp_max_conn_per_ip cfg = 10"
    "tcp_max_connections cfg = 1000" "tcp_max_frame_bytes cfg = 8192" using demo_listener_config by blast
  let ?run = "listener_tasks demo_env demo_state (\<lambda>i. demo_write) (\<lambda>w u b. (w, Inr ())) (\<lambda>k. []) None cfg
    (listener0 cfg demo_world0) two_connections"
  have live: "ls_conns ?run 0 = Some (unspecified_v4, \<lparr> buf = [48], total_bytes = 1, frame_count = 0 \<rparr>)"
    using cfg by (simp add: listener_tasks_def listener_turn_def listener0_def accept_conn_def acquire_def
        listener_start_def tracker_new_def on_read_def drain_loop.simps extract_short conn_new_def)
  from listener_connections_apart [OF refl live] obtain evs1 evs2 fs where
    "two_connections = evs1 @ Accepts unspecified_v4 # evs2"
    "foldl (feed (extract_frame (tcp_max_frame_bytes cfg))) ([], []) (reads_of 0 evs2) = ([48], fs)"
    by (metis conn.select_convs(1))
  with cfg(1) live show ?thesis
    by (intro exI [of _ cfg] exI [of _ "\<lparr> buf = [48], total_bytes = 1, frame_count = 0 \<rparr>"] exI [of _ evs1]
        exI [of _ evs2] exI [of _ fs]) simp
qed

end
