(* ===== verification/Daily_Table.thy ===== *)
theory Daily_Table
  imports Consumer_Postgres
begin

text \<open>
  The statement of \<open>src/src/consumer/postgres.rs\<close> as a function on the table \<open>kicc_daily_totals\<close>, and
  what a batch adds to it: the same as its messages one at a time, as integers, as long as no
  amount is larger than a telegram's field can hold.
\<close>

section \<open>The upsert\<close>

type_synonym int_totals = "(int, int) totals"
type_synonym daily_table = "agg_key \<times> int \<Rightarrow> int_totals option"

fun int_totals :: "(i64, i32) totals \<Rightarrow> int_totals" where
  "int_totals (Totals a b c d e f g h) =
     Totals (sint a) (sint b) (sint c) (sint d) (sint e) (sint f) (sint g) (sint h)"

text \<open>The columns are \<open>bigint\<close> and \<open>int\<close>: a value out of range is an error of the statement.\<close>

definition in_range :: "nat \<Rightarrow> int \<Rightarrow> bool" where
  "in_range b x \<longleftrightarrow> - (2 ^ b) \<le> x \<and> x < 2 ^ b"

fun columns_ok :: "int_totals \<Rightarrow> bool" where
  "columns_ok (Totals a b c d e f g h) \<longleftrightarrow>
     in_range 63 a \<and> in_range 31 b \<and> in_range 63 c \<and> in_range 31 d \<and>
     in_range 63 e \<and> in_range 31 f \<and> in_range 63 g \<and> in_range 31 h"

text \<open>
  \<open>INSERT ... SELECT ..., 0, ... ON CONFLICT ... DO UPDATE SET x = x + EXCLUDED.x\<close>: each row is inserted
  with port 0 or added to the one that is there; a key that comes twice in one statement is an
  error, and a statement with an error changes nothing.
\<close>

fun upsert_rows ::
  "agg_key set \<Rightarrow> (agg_key \<times> (i64, i32) totals) list \<Rightarrow> daily_table \<Rightarrow> daily_table option" where
  "upsert_rows seen [] T = Some T"
| "upsert_rows seen ((k, t) # rows) T =
     (if k \<in> seen then None
      else
        let new = (case T (k, 0) of None \<Rightarrow> int_totals t | Some old \<Rightarrow> old + int_totals t) in
        if columns_ok new then upsert_rows (insert k seen) rows (T((k, 0) \<mapsto> new)) else None)"

definition apply_upsert :: "pg_upsert \<Rightarrow> daily_table \<Rightarrow> daily_table option" where
  "apply_upsert q T = upsert_rows {} (unnest q) T"

text \<open>The specification: the rows of the messages one at a time.\<close>

fun add_rows :: "daily_row list \<Rightarrow> daily_table \<Rightarrow> daily_table option" where
  "add_rows [] T = Some T"
| "add_rows (r # rows) T = Option.bind (apply_upsert (upsert_of [r]) T) (add_rows rows)"

section \<open>Sums of words as sums of integers\<close>

lemma sint_sum_list:
  fixes xs :: "'a::len word list"
  assumes "\<forall>x \<in> set xs. \<bar>sint x\<bar> \<le> B" and "int (length xs) * B < 2 ^ (LENGTH('a) - 1)" and "0 \<le> B"
  shows "sint (sum_list xs) = sum_list (map sint xs) \<and> \<bar>sint (sum_list xs)\<bar> \<le> int (length xs) * B"
  using assms
proof (induction xs)
  case Nil
  then show ?case by simp
next
  case (Cons x xs)
  have len: "int (length (x # xs)) * B = B + int (length xs) * B" by (simp add: algebra_simps)
  then have IH: "sint (sum_list xs) = sum_list (map sint xs)" "\<bar>sint (sum_list xs)\<bar> \<le> int (length xs) * B"
    using Cons.IH Cons.prems by auto
  have x: "\<bar>sint x\<bar> \<le> B" using Cons.prems(1) by simp
  with IH(2) have le: "\<bar>sint x + sint (sum_list xs)\<bar> \<le> int (length (x # xs)) * B"
    unfolding len by linarith
  then have "sint (x + sum_list xs) = sint x + sint (sum_list xs)"
    using Cons.prems(2) by (intro sint_plus_in_range) linarith+
  with IH(1) le show ?case by simp
qed

lemma totals_sum:
  "t_card_amount (sum_list ts) = sum_list (map t_card_amount ts)"
  "t_card_count (sum_list ts) = sum_list (map t_card_count ts)"
  "t_cash_amount (sum_list ts) = sum_list (map t_cash_amount ts)"
  "t_cash_count (sum_list ts) = sum_list (map t_cash_count ts)"
  "t_cancel_amount (sum_list ts) = sum_list (map t_cancel_amount ts)"
  "t_cancel_count (sum_list ts) = sum_list (map t_cancel_count ts)"
  "t_other_amount (sum_list ts) = sum_list (map t_other_amount ts)"
  "t_other_count (sum_list ts) = sum_list (map t_other_count ts)"
proof -
  have plus: "t_card_amount (x + y) = t_card_amount x + t_card_amount y"
    "t_card_count (x + y) = t_card_count x + t_card_count y"
    "t_cash_amount (x + y) = t_cash_amount x + t_cash_amount y"
    "t_cash_count (x + y) = t_cash_count x + t_cash_count y"
    "t_cancel_amount (x + y) = t_cancel_amount x + t_cancel_amount y"
    "t_cancel_count (x + y) = t_cancel_count x + t_cancel_count y"
    "t_other_amount (x + y) = t_other_amount x + t_other_amount y"
    "t_other_count (x + y) = t_other_count x + t_other_count y" for x y :: "('a, 'b) totals"
    by (cases x; cases y; simp)+
  show "t_card_amount (sum_list ts) = sum_list (map t_card_amount ts)"
    "t_card_count (sum_list ts) = sum_list (map t_card_count ts)"
    "t_cash_amount (sum_list ts) = sum_list (map t_cash_amount ts)"
    "t_cash_count (sum_list ts) = sum_list (map t_cash_count ts)"
    "t_cancel_amount (sum_list ts) = sum_list (map t_cancel_amount ts)"
    "t_cancel_count (sum_list ts) = sum_list (map t_cancel_count ts)"
    "t_other_amount (sum_list ts) = sum_list (map t_other_amount ts)"
    "t_other_count (sum_list ts) = sum_list (map t_other_count ts)"
    by (induction ts) (simp_all add: plus, simp_all add: zero_totals_def)
qed

text \<open>Amounts a telegram can carry: ten characters, so below \<open>10 ^ 10\<close>; counts of one.\<close>

definition small_totals :: "(i64, i32) totals \<Rightarrow> bool" where
  "small_totals t \<longleftrightarrow>
     \<bar>sint (t_card_amount t)\<bar> \<le> 10 ^ 10 \<and> \<bar>sint (t_card_count t)\<bar> \<le> 1 \<and>
     \<bar>sint (t_cash_amount t)\<bar> \<le> 10 ^ 10 \<and> \<bar>sint (t_cash_count t)\<bar> \<le> 1 \<and>
     \<bar>sint (t_cancel_amount t)\<bar> \<le> 10 ^ 10 \<and> \<bar>sint (t_cancel_count t)\<bar> \<le> 1 \<and>
     \<bar>sint (t_other_amount t)\<bar> \<le> 10 ^ 10 \<and> \<bar>sint (t_other_count t)\<bar> \<le> 1"

lemma int_totals_sel:
  "t_card_amount (int_totals t) = sint (t_card_amount t)"
  "t_card_count (int_totals t) = sint (t_card_count t)"
  "t_cash_amount (int_totals t) = sint (t_cash_amount t)"
  "t_cash_count (int_totals t) = sint (t_cash_count t)"
  "t_cancel_amount (int_totals t) = sint (t_cancel_amount t)"
  "t_cancel_count (int_totals t) = sint (t_cancel_count t)"
  "t_other_amount (int_totals t) = sint (t_other_amount t)"
  "t_other_count (int_totals t) = sint (t_other_count t)"
  by (cases t; simp)+

lemma int_totals_sum:
  assumes small: "\<forall>t \<in> set ts. small_totals t" and len: "length ts \<le> 65535"
  shows "int_totals (sum_list ts) = sum_list (map int_totals ts)"
proof -
  have amount: "sint (sum_list (map f ts)) = sum_list (map (\<lambda>t. sint (f t)) ts)"
    if "\<forall>t \<in> set ts. \<bar>sint (f t)\<bar> \<le> 10 ^ 10" for f :: "(i64, i32) totals \<Rightarrow> i64"
    using sint_sum_list [of "map f ts" "10 ^ 10"] that len by (simp add: comp_def)
  have count: "sint (sum_list (map f ts)) = sum_list (map (\<lambda>t. sint (f t)) ts)"
    if "\<forall>t \<in> set ts. \<bar>sint (f t)\<bar> \<le> 1" for f :: "(i64, i32) totals \<Rightarrow> i32"
    using sint_sum_list [of "map f ts" 1] that len by (simp add: comp_def)
  show ?thesis
    using small
    by (intro totals.expand)
      (simp add: int_totals_sel totals_sum comp_def amount count small_totals_def)
qed

section \<open>What a statement does to the table\<close>

definition added :: "daily_table \<Rightarrow> agg_key \<Rightarrow> int_totals \<Rightarrow> int_totals" where
  "added T k x = (case T (k, 0) of None \<Rightarrow> x | Some old \<Rightarrow> old + x)"

definition int_key_total :: "agg_key \<Rightarrow> (agg_key \<times> (i64, i32) totals) list \<Rightarrow> int_totals" where
  "int_key_total k rows = sum_list (map (\<lambda>r. int_totals (snd r)) (filter (\<lambda>r. fst r = k) rows))"

definition after_rows :: "daily_table \<Rightarrow> (agg_key \<times> (i64, i32) totals) list \<Rightarrow> daily_table" where
  "after_rows T rows =
     (\<lambda>(k, p). if p = 0 \<and> k \<in> fst ` set rows then Some (added T k (int_key_total k rows)) else T (k, p))"

definition fits :: "daily_table \<Rightarrow> (agg_key \<times> (i64, i32) totals) list \<Rightarrow> bool" where
  "fits T rows \<longleftrightarrow> (\<forall>k \<in> fst ` set rows. columns_ok (added T k (int_key_total k rows)))"

lemma int_key_total_Cons:
  "int_key_total k ((j, t) # rows) =
     (if j = k then int_totals t + int_key_total k rows else int_key_total k rows)"
  by (simp add: int_key_total_def)

lemma int_key_total_none: "k \<notin> fst ` set rows \<Longrightarrow> int_key_total k rows = 0"
proof -
  assume "k \<notin> fst ` set rows"
  then have "filter (\<lambda>r. fst r = k) rows = []" by (auto simp: filter_empty_conv)
  then show ?thesis by (simp add: int_key_total_def)
qed

lemma added_zero: "T (k, 0) \<noteq> None \<Longrightarrow> added T k 0 = the (T (k, 0))"
  by (auto simp: added_def)

lemma added_upd:
  "added (T((j, 0) \<mapsto> added T j x)) k y = (if k = j then added T j (x + y) else added T k y)"
  by (auto simp: added_def add.assoc split: option.split)

text \<open>One row, then the others: the keys of the others may include it again.\<close>

lemma after_rows_Cons:
  "after_rows (T((j, 0) \<mapsto> added T j (int_totals t))) rows = after_rows T ((j, t) # rows)"
  by (auto simp: after_rows_def fun_eq_iff added_upd int_key_total_Cons int_key_total_none
      simp del: fun_upd_apply)
    (auto simp: int_key_total_none)

lemma fits_Cons:
  assumes "columns_ok (added T j (int_totals t))" and "fits (T((j, 0) \<mapsto> added T j (int_totals t))) rows"
  shows "fits T ((j, t) # rows)"
  unfolding fits_def
proof
  fix k
  assume k: "k \<in> fst ` set ((j, t) # rows)"
  show "columns_ok (added T k (int_key_total k ((j, t) # rows)))"
  proof (cases "k \<in> fst ` set rows")
    case True
    with assms(2) show ?thesis
      by (auto simp: fits_def added_upd int_key_total_Cons simp del: fun_upd_apply)
  next
    case False
    with assms(1) k show ?thesis by (simp add: int_key_total_Cons int_key_total_none)
  qed
qed

lemma upsert_rows_step:
  "upsert_rows seen ((k, t) # rows) T =
     (if k \<notin> seen \<and> columns_ok (added T k (int_totals t))
      then upsert_rows (insert k seen) rows (T((k, 0) \<mapsto> added T k (int_totals t))) else None)"
  by (simp add: added_def Let_def)

declare upsert_rows.simps(2) [simp del]

lemma upsert_rows_distinct:
  "distinct (map fst rows) \<Longrightarrow> fst ` set rows \<inter> seen = {} \<Longrightarrow> fits T rows \<Longrightarrow>
   upsert_rows seen rows T = Some (after_rows T rows)"
proof (induction rows arbitrary: seen T)
  case Nil
  then show ?case by (simp add: after_rows_def)
next
  case (Cons r rows)
  obtain k t where r: "r = (k, t)" by (meson surj_pair)
  let ?T = "T((k, 0) \<mapsto> added T k (int_totals t))"
  have k: "k \<notin> seen" "k \<notin> fst ` set rows" using Cons.prems r by auto
  then have ok: "columns_ok (added T k (int_totals t))"
    using Cons.prems(3) r by (simp add: fits_def int_key_total_Cons int_key_total_none)
  have "fits ?T rows"
    unfolding fits_def
  proof
    fix j
    assume j: "j \<in> fst ` set rows"
    then have "j \<noteq> k" using k(2) by blast
    with j Cons.prems(3) r show "columns_ok (added ?T j (int_key_total j rows))"
      by (auto simp: fits_def added_upd int_key_total_Cons simp del: fun_upd_apply)
  qed
  then have "upsert_rows (insert k seen) rows ?T = Some (after_rows ?T rows)"
    using Cons.prems k r by (intro Cons.IH) (simp_all only: set_simps list.map distinct.simps, auto)
  with k(1) ok r show ?case by (simp add: upsert_rows_step after_rows_Cons)
qed

lemma add_rows_after:
  "add_rows rows T = Some T' \<Longrightarrow>
   T' = after_rows T (map keyed rows) \<and> fits T (map keyed rows)"
proof (induction rows arbitrary: T)
  case Nil
  then show ?case by (simp add: after_rows_def fits_def)
next
  case (Cons r rows)
  let ?T = "T((key_of r, 0) \<mapsto> added T (key_of r) (int_totals (dr_totals r)))"
  have ok: "columns_ok (added T (key_of r) (int_totals (dr_totals r)))" and "add_rows rows ?T = Some T'"
    using Cons.prems by (auto simp: apply_upsert_def upsert_rows_step split: if_splits)
  then have "T' = after_rows ?T (map keyed rows)" and "fits ?T (map keyed rows)"
    using Cons.IH by blast+
  then show ?case
    using fits_Cons [OF ok] by (simp only: list.map after_rows_Cons simp_thms)
qed

text \<open>A batch is its messages one at a time.\<close>

lemma int_totals_zero [simp]: "int_totals 0 = 0"
  by (simp add: zero_totals_def)

lemma int_key_total_distinct:
  "distinct (map fst rows) \<Longrightarrow> int_key_total k rows = int_totals (key_total k rows)"
proof (induction rows)
  case Nil
  then show ?case by (simp add: int_key_total_def key_total_def)
next
  case (Cons r rows)
  obtain j t where r: "r = (j, t)" by (meson surj_pair)
  show ?case
  proof (cases "j = k")
    case True
    with Cons.prems r have k: "k \<notin> fst ` set rows" by auto
    then have "filter (\<lambda>r. fst r = k) rows = []" by (auto simp: filter_empty_conv)
    with True r int_key_total_none [OF k] show ?thesis
      by (simp add: int_key_total_Cons key_total_def)
  next
    case False
    with Cons r show ?thesis by (simp add: int_key_total_Cons key_total_def)
  qed
qed

lemma sums_int_total:
  assumes sums: "sums_of rows vals"
    and "length rows \<le> 65535" and "\<forall>r \<in> set rows. small_totals (dr_totals r)"
  shows "int_key_total k (map keyed vals) = int_key_total k (map keyed rows)"
proof -
  have "int_key_total k (map keyed vals) = int_totals (key_total k (map keyed vals))"
    using sums by (intro int_key_total_distinct) (simp add: sums_of_def comp_def)
  also have "\<dots> = int_totals (key_total k (map keyed rows))"
    using sums unfolding sums_of_def by metis
  also have "\<dots> = int_key_total k (map keyed rows)"
  proof -
    let ?ts = "map snd (filter (\<lambda>r. fst r = k) (map keyed rows))"
    have "length ?ts \<le> 65535"
      using assms(2) by (simp add: filter_map) (meson le_trans length_filter_le)
    moreover have "\<forall>t \<in> set ?ts. small_totals t" using assms(3) by auto
    ultimately show ?thesis
      using int_totals_sum [of ?ts] by (simp add: key_total_def int_key_total_def comp_def)
  qed
  finally show ?thesis .
qed

lemma sums_keys: "sums_of rows vals \<Longrightarrow> fst ` set (map keyed vals) = fst ` set (map keyed rows)"
  by (simp add: sums_of_def image_image)

text \<open>Two lists of rows with the same keys and sums do the same to a table.\<close>

lemma after_rows_cong:
  assumes "fst ` set rs = fst ` set ss" and "\<And>k. int_key_total k rs = int_key_total k ss"
  shows "after_rows T rs = after_rows T ss" and "fits T rs = fits T ss"
  unfolding after_rows_def fits_def assms by simp_all

lemma batch_upsert:
  assumes "length rows \<le> 65535" and "\<forall>r \<in> set rows. small_totals (dr_totals r)"
    and "add_rows rows T = Some T'"
  shows "apply_upsert (upsert_of (agg_values sk w (foldl agg_add [] rows))) T = Some T'"
proof -
  let ?vals = "agg_values sk w (foldl agg_add [] rows)"
  note sums = sums_of_aggregate [of rows sk w]
  note same = after_rows_cong [OF sums_keys [OF sums] sums_int_total [OF sums assms(1,2)]]
  have "distinct (map fst (map keyed ?vals))" using sums by (simp add: sums_of_def comp_def)
  moreover have "fits T (map keyed ?vals)" and T': "T' = after_rows T (map keyed ?vals)"
    using add_rows_after [OF assms(3)] same by simp_all
  ultimately show ?thesis
    unfolding apply_upsert_def unnest_upsert_of T' by (intro upsert_rows_distinct) simp_all
qed

text \<open>Conversely a statement that succeeds has added its rows.\<close>

lemma upsert_rows_after:
  "upsert_rows seen rows T = Some T' \<Longrightarrow> T' = after_rows T rows"
proof (induction rows arbitrary: seen T)
  case Nil
  then show ?case by (simp add: after_rows_def)
next
  case (Cons r rows)
  obtain k t where r: "r = (k, t)" by (meson surj_pair)
  with Cons.prems have "upsert_rows (insert k seen) rows (T((k, 0) \<mapsto> added T k (int_totals t))) = Some T'"
    by (simp add: upsert_rows_step split: if_splits)
  from Cons.IH [OF this] show ?case unfolding r by (simp only: after_rows_Cons)
qed

lemma after_rows_append: "after_rows (after_rows T rs) ss = after_rows T (rs @ ss)"
proof (induction rs arbitrary: T)
  case Nil
  then show ?case by (simp add: after_rows_def)
next
  case (Cons r rs)
  obtain k t where r: "r = (k, t)" by (meson surj_pair)
  from Cons.IH [of "T((k, 0) \<mapsto> added T k (int_totals t))"] show ?case
    unfolding r append_Cons after_rows_Cons .
qed

end
