(* ===== verification/Card_Rows.thy ===== *)
theory Card_Rows
  imports Parser Consumer_Mysql Daily_Table
begin

text \<open>
  From a telegram to the rows of the two consumers: what \<open>parse_amount\<close> reads back, and what
  \<open>to_kicc_row\<close> and \<open>to_daily_row\<close> make of the message the parser builds.
\<close>

section \<open>Amounts\<close>

lemma hd_dec_str: "0 < n \<Longrightarrow> hd (dec_str n) \<noteq> 48"
proof (induction n rule: dec_str.induct)
  case (1 n)
  then show ?case by (cases "n < 10") (auto simp: dec_str.simps [of n])
qed

lemma strip_zeros: "0 < n \<Longrightarrow> trim_start_matches 48 (replicate k 48 @ dec_str n) = dec_str n"
proof -
  assume "0 < n"
  then have "dropWhile (\<lambda>d. d = 48) (dec_str n) = dec_str n"
    by (intro dropWhile_idle) (simp add: hd_dec_str)
  then show ?thesis by (induction k) (simp_all add: trim_start_matches_def)
qed

lemma strip_zero: "trim_start_matches 48 (pad_dec k 0) = []"
  by (simp add: trim_start_matches_def pad_dec_def dec_str.simps [of 0])

lemma parse_i64_digits:
  assumes "n < 2 ^ 63"
  shows "parse_i64 (dec_str n) = Some (word_of_nat n)"
proof -
  obtain c r where s: "dec_str n = c # r" by (cases "dec_str n") auto
  then have "is_digit_char c" using dec_str_digits [of c n] by simp
  then have "c \<noteq> 43" "c \<noteq> 45" using digit_not_sign by blast+
  with s assms show ?thesis
    using parse_nat_dec_str [of n] by (simp add: parse_i64_def)
qed

lemma parse_amount_pad:
  assumes "n < 2 ^ 63"
  shows "parse_amount (pad_dec w n) = word_of_nat n"
proof -
  have "trim (pad_dec w n) = pad_dec w n" by (rule trim_digits) (simp add: pad_dec_digits)
  then show ?thesis
    using assms
    by (cases "n = 0")
      (simp_all add: parse_amount_def strip_zero, simp add: pad_dec_def strip_zeros parse_i64_digits)
qed

text \<open>A minus sign after the padding is taken as a sign.\<close>

lemma parse_amount_negative:
  assumes "0 < n" and "n \<le> 2 ^ 63"
  shows "parse_amount (replicate k 48 @ 45 # dec_str n) = word_of_int (- int n)"
proof -
  let ?s = "replicate k 48 @ 45 # dec_str n"
  have "\<not> is_ws (hd ?s)" by (cases k) (auto simp: is_ws_def)
  moreover have "\<not> is_ws (last ?s)"
    using digit_not_ws dec_str_digits [of "last (dec_str n)" n] by simp
  ultimately have "trim ?s = ?s" by (intro trimmed_trim) (simp add: trimmed_def)
  moreover have "trim_start_matches 48 ?s = 45 # dec_str n"
    by (induction k) (simp_all add: trim_start_matches_def)
  ultimately show ?thesis using assms by (simp add: parse_amount_def parse_i64_def)
qed

section \<open>Dates\<close>

lemma format_datetime_ascii:
  assumes "ascii d" and "length d = 8" and "ascii t" and "length t = 6"
  shows "format_datetime d t =
    Ret (take 4 d @ lit ''-'' @ take 2 (drop 4 d) @ lit ''-'' @ take 2 (drop 6 d) @ lit '' '' @
         take 2 t @ lit '':'' @ take 2 (drop 2 t) @ lit '':'' @ take 2 (drop 4 t))"
  using assms by (simp add: format_datetime_def ascii_byte_len slice_ascii)

lemma format_datetime_other:
  "byte_len d \<noteq> 8 \<or> byte_len t \<noteq> 6 \<Longrightarrow> format_datetime d t = Ret []"
  by (auto simp: format_datetime_def)

text \<open>A slice that ends inside the first character panics.\<close>

lemma slice_inside: "1 < utf8_len c \<Longrightarrow> 2 < utf8_len c \<Longrightarrow> slice (c # s) 0 2 = Panic"
  by (simp add: slice_def numeral_2_eq_2)

section \<open>The payload of a parsed telegram\<close>

definition card_message :: "rstr list \<Rightarrow> i64 \<Rightarrow> queue_message" where
  "card_message fs now =
     \<lparr> qm_id = fs ! 2,
       qm_event_type = lit ''card_tx_'' @ fs ! 1,
       qm_payload = str_object (expected_payload fs),
       qm_timestamp = now, qm_received_at = now,
       qm_table_key = Some (fs ! 18) \<rparr>"

lemma parse_card_message:
  "decodes_ascii (euc_kr_decode env) \<Longrightarrow> fields_ok fs \<Longrightarrow>
   \<exists>now. parse_frame env w (telegram fs) = Inr (card_message fs now)"
  by (simp add: parse_telegram_eq card_message_def)

lemma card_message_sel [simp]:
  "qm_payload (card_message fs now) = str_object (expected_payload fs)"
  "qm_table_key (card_message fs now) = Some (fs ! 18)"
  by (simp_all add: card_message_def)

lemma expected_fields:
  assumes "length fs = 20"
  defines "p \<equiv> str_object (expected_payload fs)"
  shows "str_field p ''msg_type'' d = fs ! 1" "str_field p ''tran_unique_nbr'' d = fs ! 2"
    "str_field p ''response_code'' d = fs ! 3" "str_field p ''terminal_no'' d = fs ! 4"
    "str_field p ''amount'' d = fs ! 6" "str_field p ''card_no'' d = mask_card_no (fs ! 7)"
    "str_field p ''approval_no'' d = fs ! 8" "str_field p ''approval_date'' d = fs ! 9"
    "str_field p ''approval_time'' d = fs ! 10" "str_field p ''issuer_name'' d = fs ! 14"
    "str_field p ''acquirer_name'' d = fs ! 16" "str_field p ''merchant_no'' d = fs ! 17"
    "str_field p ''cancel_flag'' d = fs ! 19"
proof -
  obtain ts where ts: "fs[7 := mask_card_no (fs ! 7), 18 := mask_business_no (fs ! 18)] = ts"
    "length ts = 20" "\<And>i. i < 20 \<Longrightarrow> ts ! i =
      (if i = 7 then mask_card_no (fs ! 7) else if i = 18 then mask_business_no (fs ! 18) else fs ! i)"
    using assms(1) by (auto simp: nth_list_update)
  have p: "map_of (expected_payload fs) =
      map_of (zip [''merchant_type'', ''msg_type'', ''tran_unique_nbr'', ''response_code'',
        ''terminal_no'', ''installment'', ''amount'', ''card_no'', ''approval_no'', ''approval_date'',
        ''approval_time'', ''orig_date'', ''card_type'', ''issuer_code'', ''issuer_name'',
        ''acquirer_code'', ''acquirer_name'', ''merchant_no'', ''business_no'', ''cancel_flag'']
       [ts ! 0, ts ! 1, ts ! 2, ts ! 3, ts ! 4, ts ! 5, ts ! 6, ts ! 7, ts ! 8,
        ts ! 9, ts ! 10, ts ! 11, ts ! 12, ts ! 13, ts ! 14, ts ! 15, ts ! 16, ts ! 17, ts ! 18,
        ts ! 19])"
    unfolding expected_payload_def ts(1) length_20_nth [OF ts(2), symmetric] ..
  show "str_field p ''msg_type'' d = fs ! 1" "str_field p ''tran_unique_nbr'' d = fs ! 2"
    "str_field p ''response_code'' d = fs ! 3" "str_field p ''terminal_no'' d = fs ! 4"
    "str_field p ''amount'' d = fs ! 6" "str_field p ''card_no'' d = mask_card_no (fs ! 7)"
    "str_field p ''approval_no'' d = fs ! 8" "str_field p ''approval_date'' d = fs ! 9"
    "str_field p ''approval_time'' d = fs ! 10" "str_field p ''issuer_name'' d = fs ! 14"
    "str_field p ''acquirer_name'' d = fs ! 16" "str_field p ''merchant_no'' d = fs ! 17"
    "str_field p ''cancel_flag'' d = fs ! 19"
    unfolding p_def str_field_object p by (simp_all add: ts(3) del: One_nat_def)
qed

lemma fields_ok_trim: "fields_ok fs \<Longrightarrow> i < 20 \<Longrightarrow> trim (fs ! i) = fs ! i"
  by (simp add: fields_ok_nth widths_def trimmed_trim)

lemma fields_ok_width: "fields_ok fs \<Longrightarrow> i < 20 \<Longrightarrow> length (fs ! i) \<le> widths ! i \<and> trimmed (fs ! i)"
  by (simp add: fields_ok_nth widths_def)

lemma fields_ok_ascii: "fields_ok fs \<Longrightarrow> i < 20 \<Longrightarrow> ascii (fs ! i)"
  by (simp add: fields_ok_nth widths_def)

lemma fields_ok_length: "fields_ok fs \<Longrightarrow> length fs = 20"
  by (simp add: fields_ok_nth widths_def)

section \<open>The rows\<close>

definition card_datetime :: "rstr \<Rightarrow> rstr \<Rightarrow> rstr" where
  "card_datetime d t =
     take 4 d @ lit ''-'' @ take 2 (drop 4 d) @ lit ''-'' @ take 2 (drop 6 d) @ lit '' '' @
     take 2 t @ lit '':'' @ take 2 (drop 2 t) @ lit '':'' @ take 2 (drop 4 t)"

lemma resolve_alnum:
  assumes "trimmed k" and "k \<noteq> []" and "length k \<le> 20" and "\<forall>c \<in> set k. is_alnum_char c"
  shows "resolve_table (Some k) = Some (lit ''kicc_b'' @ k)"
proof -
  have "ascii k"
    using assms(4) by (fastforce simp: ascii_def is_alnum_char_def is_digit_char_def)
  then show ?thesis
    using assms by (simp add: resolve_table_def trimmed_trim ascii_byte_len)
qed

lemma kicc_row_of_card:
  assumes ok: "fields_ok fs" and bid: "fs ! 18 \<noteq> []" "\<forall>c \<in> set (fs ! 18). is_alnum_char c"
    and len: "length (fs ! 9) = 8" "length (fs ! 10) = 6"
    and amount: "fs ! 6 = pad_dec 10 n" "n < 10 ^ 10"
  shows "to_kicc_row (card_message fs now) = Ret (Some
    \<lparr> table = lit ''kicc_b'' @ fs ! 18, kicc_bid = fs ! 18, kicc_tid = fs ! 2,
      kicc_mid = take 8 (fs ! 17), kicc_psn = fs ! 4, kicc_nick = fs ! 14,
      kicc_trantype = take 1 (fs ! 19), kicc_cardnumber = take 10 (mask_card_no (fs ! 7)),
      kicc_amount = word_of_nat n, kicc_rescode = fs ! 3, kicc_trno = fs ! 2,
      kicc_acquirer = fs ! 16, kicc_approve = fs ! 8, kicc_date = fs ! 9 @ fs ! 10,
      kicc_datetime = card_datetime (fs ! 9) (fs ! 10) \<rparr>)"
proof -
  have "length (fs ! 18) \<le> 10" "trimmed (fs ! 18)"
    using fields_ok_width [OF ok, of 18] by (simp_all add: widths_def)
  then have "resolve_table (Some (fs ! 18)) = Some (lit ''kicc_b'' @ fs ! 18)"
    using bid by (intro resolve_alnum) auto
  moreover have "format_datetime (fs ! 9) (fs ! 10) = Ret (card_datetime (fs ! 9) (fs ! 10))"
    using format_datetime_ascii [of "fs ! 9" "fs ! 10"] ok len
    by (simp add: card_datetime_def fields_ok_ascii)
  moreover have "parse_amount (fs ! 6) = word_of_nat n"
    unfolding amount(1) using amount(2) by (intro parse_amount_pad) simp
  ultimately show ?thesis
    using expected_fields [OF fields_ok_length [OF ok]] ok
    by (simp add: to_kicc_row_def Let_def fields_ok_trim trimmed_trim mask_card_trimmed)
qed

text \<open>What the code relies on of \<open>chrono\<close>, as it is documented.\<close>

definition chrono_ok :: "chrono \<Rightarrow> bool" where
  "chrono_ok ch \<longleftrightarrow>
     (\<forall>h. hms_opt ch h 0 0 = (if h < 24 then Some (3600 * h) else None)) \<and>
     east_opt ch (9 * 3600) = Some (9 * 3600) \<and>
     (\<forall>s d t. parse_ymd ch s = Some d \<and> t < 86400 \<longrightarrow>
        earliest_timestamp ch (9 * 3600) d t = Some (word_of_int (86400 * d + int t - 9 * 3600)))"

definition card_totals :: "rstr \<Rightarrow> rstr \<Rightarrow> i64 \<Rightarrow> (i64, i32) totals" where
  "card_totals cancel_flag msg_type amount =
     (if cancel_flag \<noteq> [] \<and> cancel_flag \<noteq> lit ''0'' then Totals 0 0 0 0 amount 1 0 0
      else if msg_type = lit ''0200'' then Totals amount 1 0 0 0 0 0 0
      else Totals 0 0 0 0 0 0 amount 1)"

lemma parse_datetime_unix_ascii:
  assumes ch: "chrono_ok ch" and d: "trimmed ds" "parse_ymd ch ds = Some d"
    and t: "trimmed ts" "ascii ts" "2 \<le> length ts" "parse_unsigned 32 (take 2 ts) = Some h" "h < 24"
  shows "parse_datetime_unix ch ds ts =
    Ret (Some (word_of_int (86400 * d + 3600 * int h - 9 * 3600)))"
proof -
  have "slice ts 0 2 = Ret (take 2 ts)" using t by (simp add: slice_ascii)
  moreover have "earliest_timestamp ch (9 * 3600) d (3600 * h) =
      Some (word_of_int (86400 * d + int (3600 * h) - 9 * 3600))"
    using ch d(2) t(5) unfolding chrono_ok_def by (elim conjE) (drule spec [of _ ds], simp)
  moreover have "hms_opt ch h 0 0 = Some (3600 * h)" "east_opt ch (9 * 3600) = Some (9 * 3600)"
    using ch t(5) by (simp_all add: chrono_ok_def)
  ultimately show ?thesis
    using d t by (simp add: parse_datetime_unix_def trimmed_trim ascii_byte_len)
qed

lemma daily_row_of_card:
  assumes ch: "chrono_ok ch" and ok: "fields_ok fs" and bid: "fs ! 18 \<noteq> []"
    and date: "length (fs ! 9) = 8" "parse_ymd ch (fs ! 9) = Some d"
    and time: "2 \<le> length (fs ! 10)" "parse_unsigned 32 (take 2 (fs ! 10)) = Some h" "h < 24"
    and amount: "fs ! 6 = pad_dec 10 n" "n < 10 ^ 10"
  shows "to_daily_row ch (card_message fs now) = Ret (Some
    \<lparr> ts_unix = word_of_int (86400 * d + 3600 * int h - 9 * 3600), dr_bid = fs ! 18,
      dr_mid = fs ! 17, dr_psn = fs ! 4,
      dr_totals = card_totals (fs ! 19) (fs ! 1) (word_of_nat n) \<rparr>)"
proof -
  have tr: "trimmed (fs ! 9)" "trimmed (fs ! 10)" using fields_ok_width [OF ok] by simp_all
  have "parse_datetime_unix ch (fs ! 9) (fs ! 10) =
      Ret (Some (word_of_int (86400 * d + 3600 * int h - 9 * 3600)))"
    using parse_datetime_unix_ascii [OF ch tr(1) date(2) tr(2) _ time] ok
    by (simp add: fields_ok_ascii)
  moreover have "parse_amount (fs ! 6) = word_of_nat n"
    unfolding amount(1) using amount(2) by (intro parse_amount_pad) simp
  moreover have "byte_len (fs ! 9) = 8" using ok date(1) by (simp add: ascii_byte_len fields_ok_ascii)
  ultimately show ?thesis
    using expected_fields [OF fields_ok_length [OF ok]] ok bid
    by (simp add: to_daily_row_def Let_def fields_ok_trim trimmed_trim card_totals_def
        del: One_nat_def)
qed

text \<open>Both rows carry an amount small enough for the sums of \<open>Daily_Table\<close>.\<close>

lemma to_daily_row_totals:
  "to_daily_row ch m = Ret (Some r) \<Longrightarrow>
   dr_totals r = card_totals (trim (str_field (qm_payload m) ''cancel_flag'' []))
     (trim (str_field (qm_payload m) ''msg_type'' []))
     (parse_amount (str_field (qm_payload m) ''amount'' (lit ''0'')))"
  unfolding to_daily_row_def Let_def card_totals_def [symmetric]
  by (auto simp: bind_rust_Ret_iff split: option.splits if_splits)

lemma card_totals_small: "\<bar>sint a\<bar> \<le> 10 ^ 10 \<Longrightarrow> small_totals (card_totals cf mt a)"
  by (simp add: card_totals_def small_totals_def)

end
