(* ===== verification/Consumer_Properties.thy ===== *)
theory Consumer_Properties
  imports Card_Rows Demo_Env Consumer_Life
begin

text \<open>
  The properties of the two consumers, first of each alone, then of a telegram's way from the parser
  to their rows. The instance for the hypotheses is a sink whose database and broker always accept.
\<close>

section \<open>An instance of the services\<close>

abbreviation demo_card :: "rstr list" where
  "demo_card \<equiv> demo_fields ''0100'' ''1234567890123456''"

text \<open>No data is no message; any other data is the message of one telegram.\<close>

definition demo_sink :: "(unit, 'k, 'q) sink" where
  "demo_sink =
     \<lparr> setup_call = (\<lambda>w q. (w, Inr ())),
       from_slice = (\<lambda>bs. if bs = [] then Inl (lit ''EOF'') else Inr (card_message demo_card 1000)),
       hash_of = (\<lambda>w k. 0),
       execute = (\<lambda>w q. (w, Inr ())),
       settle = (\<lambda>w d v. w),
       post_json = (\<lambda>w u b. (w, Inr ())) \<rparr>"

lemma demo_sink_sel [simp]:
  "setup_call demo_sink = (\<lambda>w q. (w, Inr ()))"
  "from_slice demo_sink bs = (if bs = [] then Inl (lit ''EOF'') else Inr (card_message demo_card 1000))"
  "execute demo_sink = (\<lambda>w q. (w, Inr ()))"
  "settle demo_sink = (\<lambda>w d v. w)"
  by (simp_all add: demo_sink_def)

definition demo_chrono :: chrono where
  "demo_chrono =
     \<lparr> parse_ymd = (\<lambda>s. if s = lit ''20240618'' then Some 19892 else None),
       hms_opt = (\<lambda>h m s. if h < 24 \<and> m < 60 \<and> s < 60 then Some (3600 * h + 60 * m + s) else None),
       east_opt = (\<lambda>n. Some n),
       earliest_timestamp = (\<lambda>off d t. Some (word_of_int (86400 * d + int t - off))) \<rparr>"

lemma demo_chrono_ok: "chrono_ok demo_chrono" "parse_ymd demo_chrono (lit ''20240618'') = Some 19892"
  by (simp_all add: chrono_ok_def demo_chrono_def)

lemma demo_card_nth:
  "demo_card ! 18 = lit ''1234567890''" "demo_card ! 9 = lit ''20240618''"
  "demo_card ! 10 = lit ''143000''" "demo_card ! 6 = lit ''0000050000''"
  "demo_card ! 17 = lit ''M0001''" "demo_card ! 4 = lit ''T123456''"
  "demo_card ! 19 = lit ''0''" "demo_card ! 1 = lit ''0100''"
  by (simp_all add: demo_fields_def)

lemma demo_digits: "c \<in> set (lit ''1234567890'') \<Longrightarrow> is_alnum_char c"
  by (auto simp: lit_def is_alnum_char_def is_digit_char_def)

lemma demo_amount: "lit ''0000050000'' = pad_dec 10 50000"
  by (simp add: pad_dec_def dec_str.simps lit_def) (simp add: numeral_eq_Suc)

lemma demo_hour: "parse_unsigned 32 (take 2 (lit ''143000'')) = Some 14"
  by (simp add: lit_def parse_unsigned_def parse_nat_def is_digit_char_def)

lemma demo_kicc:
  "\<exists>r. to_kicc_row (card_message demo_card 1000) = Ret (Some r) \<and> table r = lit ''kicc_b1234567890'' \<and>
     kicc_amount r = 50000"
proof -
  have "fields_ok demo_card" by (simp add: demo_fields_ok)
  from kicc_row_of_card [OF this, of 50000] show ?thesis
    unfolding demo_card_nth using demo_digits demo_amount by (auto simp: lit_def)
qed

lemma demo_daily:
  "to_daily_row demo_chrono (card_message demo_card 1000) = Ret (Some
     \<lparr> ts_unix = word_of_int (86400 * 19892 + 3600 * 14 - 9 * 3600), dr_bid = lit ''1234567890'',
       dr_mid = lit ''M0001'', dr_psn = lit ''T123456'',
       dr_totals = Totals 0 0 0 0 0 0 50000 1 \<rparr>)"
proof -
  have "fields_ok demo_card" by (simp add: demo_fields_ok)
  from daily_row_of_card [OF demo_chrono_ok(1) this, of 19892 14 50000 1000] show ?thesis
    unfolding demo_card_nth
    by (simp add: demo_amount demo_hour demo_chrono_ok card_totals_def)
      (simp add: lit_def)
qed

definition demo_deliveries :: "delivery list" where
  "demo_deliveries = [\<lparr> dl_tag = 1, dl_data = [1] \<rparr>, \<lparr> dl_tag = 2, dl_data = [] \<rparr>]"

text \<open>A run of the MySQL consumer with batches of two over the two deliveries and a tick.\<close>

lemma demo_mysql_run:
  "\<exists>q. mysql_run (traced_sink demo_sink) [] [] None 2 1 0 ((), [])
     (map Incoming demo_deliveries @ [Tick]) =
   (((), [Settled (demo_deliveries ! 1) Nack_Drop, Executed q (Inr ()),
          Settled (demo_deliveries ! 0) Ack]), Inr mysql_state0)"
  using demo_kicc
  by (auto simp: demo_deliveries_def mysql_run_def run_consumer_def setup_requests_def traced_sink_def
      mysql_step_def mysql_flush_full_def mysql_flush_def mysql_groups_def hash_order_def
      flush_group_def mysql_state0_def split: prod.splits)

lemma demo_pg_run:
  "\<exists>q. pg_run (traced_sink demo_sink) demo_chrono [] [] None 2 1 0 ((), [])
     (map Incoming demo_deliveries @ [Tick]) =
   (((), [Settled (demo_deliveries ! 1) Nack_Drop, Executed q (Inr ()),
          Settled (demo_deliveries ! 0) Ack]), Inr pg_state0)"
  by (auto simp: demo_deliveries_def pg_run_def run_consumer_def setup_requests_def traced_sink_def
      pg_step_def pg_flush_full_def pg_flush_def demo_daily pg_state0_def split: prod.splits)

section \<open>The MySQL consumer\<close>

lemma my_start:
  assumes "mysql_run (traced_sink sk) url q nt n secs nanos (w, []) evs = (wl, r)"
  shows "(\<exists>w1. consume (mysql_step (traced_sink sk) nt n) (w1, []) mysql_state0 evs = (wl, r)) \<or>
    (snd wl = [] \<and> (\<exists>e. r = Inl e))"
  using run_consumer_traced [OF assms [unfolded mysql_run_def]] by blast

text \<open>
  C9: no delivery is lost or settled twice by the MySQL consumer while it runs: what it has
  acknowledged or dead-lettered, with what is waiting in its batch, is exactly what it received, and
  fewer deliveries than a batch (at least one) are waiting.
\<close>

theorem mysql_accounts:
  assumes "mysql_run (traced_sink sk) url q nt n secs nanos (w, []) evs = ((w', l), Inr s)"
  shows "mset (settled_in l) + mset (my_deliveries s) = mset (arrivals evs) \<and>
    length (my_deliveries s) < max 1 n"
proof -
  obtain w1 where "consume (mysql_step (traced_sink sk) nt n) (w1, []) mysql_state0 evs = ((w', l), Inr s)"
    using my_start [OF assms] by auto
  then show ?thesis
    using my.run_accounts [of sk mysql_state0 nt n "(w1, [])" evs "(w', l)" s]
      my.run_bound [of sk mysql_state0 nt n "(w1, [])" evs "(w', l)" s] by simp
qed

theorem mysql_accounts_witness:
  "\<exists>l. snd (fst (mysql_run (traced_sink demo_sink) [] [] None 2 1 0 ((), [])
       (map Incoming demo_deliveries @ [Tick]))) = l \<and> mset (settled_in l) = mset demo_deliveries"
proof -
  obtain q where run: "mysql_run (traced_sink demo_sink) [] [] None 2 1 0 ((), [])
     (map Incoming demo_deliveries @ [Tick]) =
   (((), [Settled (demo_deliveries ! 1) Nack_Drop, Executed q (Inr ()),
          Settled (demo_deliveries ! 0) Ack]), Inr mysql_state0)" using demo_mysql_run by blast
  show ?thesis using mysql_accounts [OF run] run by (simp add: demo_deliveries_def)
qed

text \<open>
  C17: the verdict of the MySQL consumer on each delivery: data that is no message is dead-lettered, a
  message with no usable table key is acknowledged and dropped, and any other delivery is settled
  only after a statement for its table that carries its row, acknowledged when that statement
  succeeded and dead-lettered when it failed.
\<close>

theorem mysql_verdicts:
  assumes "mysql_run (traced_sink sk) url q nt n secs nanos (w, []) evs = ((w', l), r)"
  shows "justified (carries_row sk) (settled_unstored sk) [] l"
  using mysql_run_justified [of sk "(w, [])" url q nt n secs nanos evs] assms by simp

theorem mysql_verdicts_witness:
  "justified (carries_row (demo_sink :: unit mysql_sink)) (settled_unstored (demo_sink :: unit mysql_sink)) []
     (snd (fst (mysql_run (traced_sink demo_sink) [] [] None 2 1 0 ((), [])
       (map Incoming demo_deliveries @ [Tick]))))"
proof -
  obtain w' l r where run: "mysql_run (traced_sink demo_sink) [] [] None 2 1 0 ((), [])
     (map Incoming demo_deliveries @ [Tick]) = ((w' :: unit, l), r)" by (metis surj_pair)
  show ?thesis using mysql_verdicts [OF run] run by simp
qed

text \<open>
  C32: the table a row goes to is named by letters and digits only. The key of a message is trimmed and
  refused unless it is one to twenty ASCII letters and digits, so the text of the statement, the one
  place where data becomes SQL, has the backquotes the code wrote and no others.
\<close>

theorem mysql_statement_text:
  assumes "to_kicc_row m = Ret (Some r)"
  shows "\<exists>k0 k. qm_table_key m = Some k0 \<and> k = trim k0 \<and> k \<noteq> [] \<and> length k \<le> 20 \<and>
    (\<forall>c \<in> set k. is_alnum_char c) \<and> table r = lit ''kicc_b'' @ k \<and>
    length (filter (\<lambda>c. c = 96) (insert_sql (table r))) = 2"
proof -
  obtain k0 where k0: "qm_table_key m = Some k0" "resolve_table (Some k0) = Some (table r)"
    using assms
    by (auto simp: to_kicc_row_def Let_def resolve_table_def bind_rust_Ret_iff
        split: option.splits if_splits)
  let ?k = "trim k0"
  have k: "?k \<noteq> []" "byte_len ?k \<le> 20" "\<forall>c \<in> set ?k. is_alnum_char c" "table r = lit ''kicc_b'' @ ?k"
    using k0(2) by (auto simp: resolve_table_def Let_def split: if_splits)
  have "length ?k \<le> 20" using k(2) length_le_byte_len [of ?k] by simp
  moreover have "filter (\<lambda>c. c = 96) ?k = []"
    using k(3) by (auto simp: filter_empty_conv is_alnum_char_def is_digit_char_def)
  then have "length (filter (\<lambda>c. c = 96) (insert_sql (table r))) = 2"
    by (simp add: insert_sql_def k(4)) (simp add: lit_def)
  ultimately show ?thesis using k k0(1) by blast
qed

theorem mysql_statement_text_witness:
  "\<exists>r. to_kicc_row (card_message demo_card 1000) = Ret (Some r) \<and>
     length (filter (\<lambda>c. c = 96) (insert_sql (table r))) = 2"
proof -
  obtain r where "to_kicc_row (card_message demo_card 1000) = Ret (Some r)" using demo_kicc by blast
  with mysql_statement_text [OF this] show ?thesis by auto
qed

section \<open>The PostgreSQL consumer\<close>

lemma pg_start:
  assumes "pg_run (traced_sink sk) ch url q nt n secs nanos (w, []) evs = (wl, r)"
  shows "(\<exists>w1. consume (pg_step (traced_sink sk) ch nt n) (w1, []) pg_state0 evs = (wl, r)) \<or>
    (snd wl = [] \<and> (\<exists>e. r = Inl e))"
  using run_consumer_traced [OF assms [unfolded pg_run_def]] by blast

text \<open>
  No delivery is lost or settled twice by the PostgreSQL consumer while it runs: what it has
  settled, with what is waiting in its batch, is exactly what it received, and fewer deliveries than
  a batch (at least one) are waiting.
\<close>

lemma pg_accounts:
  assumes "pg_run (traced_sink sk) ch url q nt n secs nanos (w, []) evs = ((w', l), Inr s)"
  shows "mset (settled_in l) + mset (pg_deliveries s) = mset (arrivals evs) \<and>
    length (pg_deliveries s) < max 1 n"
proof -
  obtain w1 where "consume (pg_step (traced_sink sk) ch nt n) (w1, []) pg_state0 evs = ((w', l), Inr s)"
    using pg_start [OF assms] by auto
  then show ?thesis
    using pg.run_accounts [of sk pg_state0 ch nt n "(w1, [])" evs "(w', l)" s]
      pg.run_bound [of sk pg_state0 ch nt n "(w1, [])" evs "(w', l)" s] by simp
qed

lemma pg_accounts_demo:
  "\<exists>l. snd (fst (pg_run (traced_sink demo_sink) demo_chrono [] [] None 2 1 0 ((), [])
       (map Incoming demo_deliveries @ [Tick]))) = l \<and> mset (settled_in l) = mset demo_deliveries"
proof -
  obtain q where run: "pg_run (traced_sink demo_sink) demo_chrono [] [] None 2 1 0 ((), [])
     (map Incoming demo_deliveries @ [Tick]) =
   (((), [Settled (demo_deliveries ! 1) Nack_Drop, Executed q (Inr ()),
          Settled (demo_deliveries ! 0) Ack]), Inr pg_state0)" using demo_pg_run by blast
  show ?thesis using pg_accounts [OF run] run by (simp add: demo_deliveries_def)
qed

text \<open>
  C18: the verdict of the PostgreSQL consumer on each delivery: data that is no message is
  dead-lettered, a message that gives no row (no table key, no date) is acknowledged and dropped, and
  any other delivery is settled only after a statement with a row for its key, acknowledged when
  that statement succeeded and dead-lettered when it failed.
\<close>

theorem pg_verdicts:
  assumes "pg_run (traced_sink sk) ch url q nt n secs nanos (w, []) evs = ((w', l), r)"
  shows "justified (carries_day sk ch) (day_unstored sk ch) [] l"
  using pg_run_justified [of sk ch "(w, [])" url q nt n secs nanos evs] assms by simp

theorem pg_verdicts_witness:
  "justified (carries_day (demo_sink :: unit pg_sink) demo_chrono)
     (day_unstored (demo_sink :: unit pg_sink) demo_chrono) []
     (snd (fst (pg_run (traced_sink demo_sink) demo_chrono [] [] None 2 1 0 ((), [])
       (map Incoming demo_deliveries @ [Tick]))))"
proof -
  obtain w' l r where run: "pg_run (traced_sink demo_sink) demo_chrono [] [] None 2 1 0 ((), [])
     (map Incoming demo_deliveries @ [Tick]) = ((w' :: unit, l), r)" by (metis surj_pair)
  show ?thesis using pg_verdicts [OF run] run by simp
qed

end
