(* ===== verification/Card_Properties.thy ===== *)
theory Card_Properties
  imports Consumer_Properties
begin

text \<open>
  The properties of what a message becomes: the amounts, the sum
  of a batch, the messages that stop a consumer, and the prefetch.
\<close>

text \<open>
  C14: a batch adds to the table what its messages would have added one at a time. The rows of up to
  65535 messages (the prefetch has 16 bits) with amounts a telegram can hold, summed per key in words
  and sent in whatever order the map gives, leave the same table as one statement per message, and
  the statement never meets a key twice.
\<close>

theorem batch_is_one_at_a_time:
  assumes "length rows \<le> 65535" and "\<forall>r \<in> set rows. small_totals (dr_totals r)"
    and "add_rows rows T = Some T'"
  shows "apply_upsert (upsert_of (agg_values sk w (foldl agg_add [] rows))) T = Some T'"
  using batch_upsert [OF assms] .

definition demo_rows :: "daily_row list" where
  "demo_rows =
     [\<lparr> ts_unix = 0, dr_bid = [49], dr_mid = [], dr_psn = [], dr_totals = Totals 500 1 0 0 0 0 0 0 \<rparr>,
      \<lparr> ts_unix = 0, dr_bid = [49], dr_mid = [], dr_psn = [], dr_totals = Totals 0 0 0 0 300 1 0 0 \<rparr>]"

lemma demo_rows_added:
  "\<exists>T'. add_rows demo_rows Map.empty = Some T' \<and>
     T' ((0, [49], [], []), 0) = Some (Totals 500 1 0 0 300 1 0 0)"
  by (simp add: demo_rows_def apply_upsert_def upsert_rows_step added_def key_of_def in_range_def)

theorem batch_is_one_at_a_time_witness:
  "\<exists>T'. apply_upsert (upsert_of (agg_values (demo_sink :: unit pg_sink) ()
       (foldl agg_add [] demo_rows))) Map.empty = Some T' \<and>
     T' ((0, [49], [], []), 0) = Some (Totals 500 1 0 0 300 1 0 0)"
proof -
  obtain T' where T': "add_rows demo_rows Map.empty = Some T'"
    "T' ((0, [49], [], []), 0) = Some (Totals 500 1 0 0 300 1 0 0)" using demo_rows_added by blast
  have len: "length demo_rows \<le> 65535" by (simp add: demo_rows_def)
  have small: "\<forall>r \<in> set demo_rows. small_totals (dr_totals r)"
    by (simp add: demo_rows_def small_totals_def)
  show ?thesis
    by (intro exI [of _ T'] conjI T'(2))
      (rule batch_is_one_at_a_time [OF len small T'(1), of "demo_sink :: unit pg_sink" "()"])
qed

text \<open>
  Amounts: a number padded with zeros to any width is read back as that number, and zeros before
  a minus sign are stripped too, so a field such as \<open>000000-500\<close> is a negative amount.
\<close>

lemma parse_amount_padded:
  "(n < 2 ^ 63 \<longrightarrow> parse_amount (pad_dec w n) = word_of_nat n) \<and>
   (0 < n \<and> n \<le> 2 ^ 63 \<longrightarrow> parse_amount (replicate k 48 @ 45 # dec_str n) = word_of_int (- int n))"
  using parse_amount_pad parse_amount_negative by blast

lemma parse_amount_padded_demo:
  "parse_amount (pad_dec 10 50000) = 50000 \<and>
   parse_amount (replicate 6 48 @ 45 # dec_str 500) = word_of_int (- int 500)"
  using parse_amount_padded [of 50000 10 6] parse_amount_padded [of 500 10 6] by simp

section \<open>Messages that stop a consumer\<close>

text \<open>
  A message with a table key and a date, whose approval time is six bytes of which the first
  character takes more than two: two Hangul characters, for instance, which a terminal can send.
\<close>

definition poison :: "queue_message \<Rightarrow> bool" where
  "poison m \<longleftrightarrow>
     resolve_table (qm_table_key m) \<noteq> None \<and>
     byte_len (trim (str_field (qm_payload m) ''approval_date'' [])) = 8 \<and>
     (let t = trim (str_field (qm_payload m) ''approval_time'' []) in
      byte_len t = 6 \<and> t \<noteq> [] \<and> 2 < utf8_len (hd t))"

lemma poison_slice: "poison m \<Longrightarrow> slice (trim (str_field (qm_payload m) ''approval_time'' [])) 0 2 = Panic"
proof -
  assume "poison m"
  then obtain c r where "trim (str_field (qm_payload m) ''approval_time'' []) = c # r" "2 < utf8_len c"
    by (cases "trim (str_field (qm_payload m) ''approval_time'' [])") (auto simp: poison_def Let_def)
  then show ?thesis by (simp add: slice_inside)
qed

lemma format_datetime_panics:
  "byte_len d = 8 \<Longrightarrow> byte_len t = 6 \<Longrightarrow> slice t 0 2 = Panic \<Longrightarrow> format_datetime d t = Panic"
  by (cases "slice d 0 4"; cases "slice d 4 6"; cases "slice d 6 8") (simp_all add: format_datetime_def)

lemma poison_kicc: "poison m \<Longrightarrow> to_kicc_row m = Panic"
proof -
  assume m: "poison m"
  then obtain t where "resolve_table (qm_table_key m) = Some t" by (auto simp: poison_def)
  moreover have "format_datetime (trim (str_field (qm_payload m) ''approval_date'' []))
      (trim (str_field (qm_payload m) ''approval_time'' [])) = Panic"
    using m poison_slice [OF m] by (intro format_datetime_panics) (simp_all add: poison_def Let_def)
  ultimately show ?thesis by (simp add: to_kicc_row_def)
qed

lemma poison_daily:
  assumes "poison m" and "parse_ymd ch (trim (str_field (qm_payload m) ''approval_date'' [])) \<noteq> None"
  shows "to_daily_row ch m = Panic"
proof -
  obtain k where k: "qm_table_key m = Some k" "k \<noteq> []"
    using assms(1)
    by (cases "qm_table_key m"; cases "qm_table_key m = Some []")
      (auto simp: poison_def resolve_table_def)
  obtain d where "parse_ymd ch (trim (str_field (qm_payload m) ''approval_date'' [])) = Some d"
    using assms(2) by blast
  with poison_slice [OF assms(1)] assms(1) k show ?thesis
    by (simp add: to_daily_row_def Let_def parse_datetime_unix_def poison_def)
qed

text \<open>
  A message that panics the MySQL consumer is never settled: with any batch waiting, its delivery
  ends the process at once, and no delivery is acknowledged, dead-lettered or stored; the broker
  delivers it again to the restarted process, which panics again.
\<close>

lemma mysql_poison:
  assumes "from_slice sk (dl_data d) = Inr m" and "poison m"
  shows "mysql_step sk nt n w s (Incoming d) = (w, Inl Run_Panicked)"
  using assms by (simp add: mysql_step_def poison_kicc)

definition poison_message :: queue_message where
  "poison_message =
     \<lparr> qm_id = [49], qm_event_type = [],
       qm_payload = str_object [(''approval_date'', lit ''20240618''), (''approval_time'', [54620, 54620])],
       qm_timestamp = 0, qm_received_at = 0, qm_table_key = Some (lit ''1234567890'') \<rparr>"

lemma poison_message: "poison poison_message"
  by (simp add: poison_def poison_message_def str_field_object Let_def)
    (simp add: resolve_table_def lit_def trim_def is_ws_def utf8_len_def is_alnum_char_def
      is_digit_char_def)

lemma mysql_poison_witness:
  "mysql_step (demo_sink\<lparr>from_slice := (\<lambda>_. Inr poison_message)\<rparr> :: unit mysql_sink) None 100 ()
     mysql_state0 (Incoming \<lparr> dl_tag = 1, dl_data = [] \<rparr>) = ((), Inl Run_Panicked)"
  by (rule mysql_poison) (simp, rule poison_message)

lemma aggregate_panics:
  assumes "(d, m) \<in> set pairs" and "to_daily_row ch m = Panic"
  shows "snd (aggregate sk ch w pairs gd agg) = Panic"
  using assms
  by (induction pairs arbitrary: w gd agg) (auto split: rust.splits option.splits)

lemma aggregate_executes_nothing:
  "aggregate (traced_sink sk) ch (w, l) pairs gd agg = ((w', l'), r) \<Longrightarrow>
   \<exists>ds. l' = l @ map (\<lambda>d. Settled d Ack) ds \<and>
     (\<forall>d \<in> set ds. \<exists>m. (d, m) \<in> set pairs \<and> to_daily_row ch m = Ret None)"
proof (induction pairs arbitrary: w l gd agg)
  case Nil
  then show ?case by simp
next
  case (Cons p pairs)
  obtain d m where p: "p = (d, m)" by force
  consider "to_daily_row ch m = Panic" | "to_daily_row ch m = Ret None"
    | row where "to_daily_row ch m = Ret (Some row)"
    by (metis not_Some_eq rust.exhaust)
  then show ?case
  proof cases
    case 1
    with Cons.prems p show ?thesis by simp
  next
    case 2
    with Cons.prems p Cons.IH [of "settle sk w d Ack" "l @ [Settled d Ack]" gd agg]
    obtain ds where "l' = (l @ [Settled d Ack]) @ map (\<lambda>d. Settled d Ack) ds"
      "\<forall>d \<in> set ds. \<exists>m. (d, m) \<in> set pairs \<and> to_daily_row ch m = Ret None" by auto
    with 2 p show ?thesis by (intro exI [of _ "d # ds"]) auto
  next
    case 3
    with Cons.prems p Cons.IH [of w l "gd @ [d]" "agg_add agg row"] show ?thesis by fastforce
  qed
qed

text \<open>
  C40: the same message stops the PostgreSQL consumer when its batch is flushed, before the statement is
  sent: nothing of the batch is stored and no
  delivery that has a row is settled, whatever else is in it.
\<close>

theorem pg_poison:
  assumes "(d, m) \<in> set (zip (pg_deliveries s) (pg_messages s))" and "poison m"
    and "parse_ymd ch (trim (str_field (qm_payload m) ''approval_date'' [])) \<noteq> None"
  shows "\<exists>w' ds. pg_flush (traced_sink sk) ch nt (w, l) s =
    ((w', l @ map (\<lambda>d. Settled d Ack) ds), Panic) \<and>
    (\<forall>d \<in> set ds. \<exists>m. (d, m) \<in> set (zip (pg_deliveries s) (pg_messages s)) \<and>
      to_daily_row ch m = Ret None)"
proof -
  let ?pairs = "zip (pg_deliveries s) (pg_messages s)"
  obtain w1 l1 a where agg: "aggregate (traced_sink sk) ch (w, l) ?pairs [] [] = ((w1, l1), a)"
    by (metis surj_pair)
  have "a = Panic"
    using aggregate_panics [OF assms(1) poison_daily [OF assms(2,3)], of "traced_sink sk" "(w, l)" "[]" "[]"]
      agg by simp
  moreover obtain ds where "l1 = l @ map (\<lambda>d. Settled d Ack) ds"
    "\<forall>d \<in> set ds. \<exists>m. (d, m) \<in> set ?pairs \<and> to_daily_row ch m = Ret None"
    using aggregate_executes_nothing [OF agg] by blast
  ultimately show ?thesis
    using agg by (intro exI [of _ w1] exI [of _ ds]) (simp add: pg_flush_def)
qed

theorem pg_poison_witness:
  "\<exists>w' ds. pg_flush (traced_sink demo_sink) demo_chrono None ((), [])
       \<lparr> pg_deliveries = demo_deliveries, pg_messages = [card_message demo_card 0, poison_message] \<rparr> =
     ((w', map (\<lambda>d. Settled d Ack) ds), Panic)"
proof -
  have "parse_ymd demo_chrono (trim (str_field (qm_payload poison_message) ''approval_date'' [])) \<noteq> None"
    using demo_chrono_ok(2)
    by (simp add: poison_message_def str_field_object trim_digits lit_def is_digit_char_def)
  moreover have "(demo_deliveries ! 1, poison_message) \<in>
      set (zip demo_deliveries [card_message demo_card 0, poison_message])"
    by (simp add: demo_deliveries_def)
  ultimately show ?thesis
    using pg_poison [of "demo_deliveries ! 1" poison_message "\<lparr> pg_deliveries = demo_deliveries,
        pg_messages = [card_message demo_card 0, poison_message] \<rparr>" demo_chrono demo_sink None "()" "[]"]
      poison_message by auto
qed

text \<open>
  The prefetch of a consumer: the low 16 bits of twice the batch size, at least 50. It is twice the
  batch from 25 to 32767; from 32768 on it is smaller than the batch, so the broker stops sending
  before a batch is full and every flush waits for the tick.
\<close>

lemma prefetch_value:
  "unat (prefetch n) = max 50 (2 * n mod 65536) \<and>
   (25 \<le> n \<and> n < 32768 \<longrightarrow> unat (prefetch n) = 2 * n) \<and>
   (32768 \<le> n \<longrightarrow> unat (prefetch n) < n)"
proof -
  have "n * 2 mod 2 ^ 64 mod 65536 = 2 * n mod (65536 :: nat)"
    using mod_mod_cancel [of 65536 "2 ^ 64" "n * 2"] by (simp add: mult.commute)
  then have "unat (word_of_nat (n * 2 mod 2 ^ 64) :: u16) = 2 * n mod 65536"
    by (simp add: unsigned_of_nat take_bit_eq_mod)
  then have v: "unat (prefetch n) = max 50 (2 * n mod 65536)"
    by (auto simp: prefetch_def max_def word_le_nat_alt)
  have "2 * n mod 65536 < n" if "32768 \<le> n"
  proof (cases "n < 65536")
    case True
    with that have "2 * n mod 65536 = 2 * n - 65536" by (simp add: mod_if)
    with True that show ?thesis by simp
  next
    case False
    have "2 * n mod 65536 < 65536" by simp
    with False show ?thesis by linarith
  qed
  with v show ?thesis by auto
qed

lemma prefetch_value_demo:
  "unat (prefetch 100) = 200 \<and> unat (prefetch 32768) < 32768"
  using prefetch_value [of 100] prefetch_value [of 32768] by simp

end
