(* ===== verification/Tcp_Properties.thy ===== *)
theory Tcp_Properties
  imports Tcp_Listener Demo_Env
begin

text \<open>
  The properties of \<open>src/src/tcp_listener.rs\<close>: framing, the answers, and the accept loop.
\<close>

section \<open>Lemmas on answers\<close>





lemma str_bytes_00: "str_bytes (lit ''00'') = [48, 48]"
  by (simp add: str_bytes_def lit_def encode_char_def)

lemma response_type_Nil [simp]: "response_type mt = [] \<longleftrightarrow> mt = []"
  by (auto simp: response_type_def lit_def)

lemma build_response_panics:
  "build_response frame mt = Panic \<longleftrightarrow>
     12 \<le> length frame \<and> mt \<noteq> [] \<and> byte_len (response_type mt) \<noteq> 4"
  by (auto simp: build_response_def Let_def bind_rust_Panic_iff copy_from_slice_def str_bytes_00
      split: if_splits)

lemma byte_len_response_type: "byte_len (response_type mt) = 4 \<longleftrightarrow> byte_len mt = 4"
  by (auto simp: response_type_def lit_def utf8_len_def)






lemma process_frame_answer:
  "snd (process_frame env st w frame) =
     (if length frame < 153 then build_response frame []
      else build_response frame (field (euc_kr_decode env) frame 8 4))"
  by (simp add: process_frame_def parse_frame_def Let_def)

section \<open>Properties of one connection\<close>

text \<open>
  C10: a connection serves exactly the frames of its stream, in order and whatever the reads: if the
  bytes read are valid frames in their wire form followed by the beginning of another, the run of
  \<open>handle_connection\<close> over any split of them into reads is the sequence of processing and answering
  each frame, up to the first that ends the task; nothing else is processed, and the unfinished
  tail is what stays in the buffer.
\<close>

theorem connection_serves_stream:
  assumes "concat chunks = concat (map wire_frame fs) @ p"
    and "\<forall>f \<in> set fs. valid_frame n f"
    and "p = [] \<or> (\<exists>f. valid_frame n f \<and> strict_prefix p (wire_frame f))"
    and "[] \<notin> set chunks"
  shows "handle_connection env st write n w conn_new (map Read_Bytes chunks) =
    (case serve_frames env st write w fs of
       (w', Inl stop) \<Rightarrow> (w', Inl stop)
     | (w', Inr _) \<Rightarrow>
         (w', Inr \<lparr> buf = p, total_bytes = length (concat chunks), frame_count = length fs \<rparr>))"
  using handle_connection_serves [of n conn_new chunks fs p env st "write" w] assms
  by (simp add: conn_new_def extract_short llll.stream_def llll.tail_ok_def after_serving_def
      split: prod.splits sum.splits)

theorem connection_serves_stream_witness:
  "fst (handle_connection demo_env demo_state demo_write 8192 demo_world0 conn_new
     (map Read_Bytes [[48, 48], [48, 50, 65], [66, 48]])) =
   fst (serve_frames demo_env demo_state demo_write demo_world0 [([65, 66], True)])"
proof -
  have wire: "wire_frame ([65, 66], True) = [48, 48, 48, 50, 65, 66]"
    by (simp add: wire_frame_def response_bytes_def pad_dec_def dec_str.simps str_bytes_def
        encode_char_def numeral_eq_Suc)
  have valid: "valid_frame 8192 ([65, 66], True)" by (simp add: valid_frame_def)
  have "\<exists>f. valid_frame 8192 f \<and> strict_prefix [48] (wire_frame f)"
    by (rule exI [of _ "([65, 66], True)"]) (simp add: wire valid)
  then have eq: "handle_connection demo_env demo_state demo_write 8192 demo_world0 conn_new
      (map Read_Bytes [[48, 48], [48, 50, 65], [66, 48]]) =
    (case serve_frames demo_env demo_state demo_write demo_world0 [([65, 66], True)] of
       (w', Inl stop) \<Rightarrow> (w', Inl stop)
     | (w', Inr _) \<Rightarrow>
         (w', Inr \<lparr> buf = [48], total_bytes = length (concat [[48, 48], [48, 50, 65], [66, 48 :: u8]]),
           frame_count = length [([65 :: u8, 66], True)] \<rparr>))"
    by (intro connection_serves_stream) (simp_all add: wire valid)
  show ?thesis unfolding eq by (simp split: prod.split sum.split)
qed



text \<open>
  C31: when processing a frame panics: exactly for a telegram long enough to be parsed whose decoded
  and trimmed message type is neither empty nor four bytes long. The slice of four bytes is then
  overwritten with a text of another length, after the event has been published.
\<close>

theorem process_frame_panics:
  "snd (process_frame env st w frame) = Panic \<longleftrightarrow>
     153 \<le> length frame \<and>
     byte_len (field (euc_kr_decode env) frame 8 4) \<notin> {0, 4}"
  by (auto simp: process_frame_answer build_response_panics byte_len_response_type)

section \<open>Processing the demonstration telegrams\<close>

lemma demo_key_new:
  "demo_redis demo_world0 (set_nx_args ttl k) =
     (demo_world0\<lparr>dw_keys := [k]\<rparr>, Inr (Some (lit ''OK'')))"
  by (simp add: demo_redis_def set_nx_args_def demo_world0_def)

lemma demo_id_length: "lit ''202406180001'' \<noteq> []" "byte_len (lit ''202406180001'') = 12"
  by (simp_all add: lit_def utf8_len_def)

lemma demo_process_world:
  assumes "fields_ok (demo_fields mt ''1234567890123456'')"
  shows "fst (process_frame demo_env demo_state demo_world0 (demo_frame mt)) =
    demo_world0\<lparr>dw_keys := [dedup_key (lit ''202406180001'')],
      dw_published := [publication_of (lit ''events'') (str_bytes (lit ''202406180001''))]\<rparr>"
proof -
  obtain m where "parse_frame demo_env demo_world0 (demo_frame mt) = Inr m"
    "qm_id m = lit ''202406180001''"
    using demo_parse [of demo_env, OF _ assms] by auto
  then show ?thesis
    using demo_id_length
    by (simp add: process_frame_def Let_def is_new_def demo_key_new publish_def demo_state_def)
      (simp add: demo_world0_def)
qed

lemma failing_process_world:
  "dw_published (fst (process_frame failing_env demo_state demo_world0 (demo_frame ''0100''))) = []"
proof -
  obtain m where "parse_frame failing_env demo_world0 (demo_frame ''0100'') = Inr m"
    "qm_id m = lit ''202406180001''"
    using demo_parse [of failing_env, OF _ demo_fields_ok(1)] by auto
  then show ?thesis
    using demo_id_length
    by (simp add: process_frame_def Let_def is_new_def demo_key_new publish_def demo_state_def)
      (simp add: demo_world0_def)
qed

lemma drain_one:
  assumes "valid_frame n f"
  shows "handle_connection env st wr n w conn_new [Read_Bytes (wire_frame f)] =
    after_serving (conn_new\<lparr>total_bytes := length (wire_frame f)\<rparr>) [] 1
      (serve_frames env st wr w [f])"
proof -
  have "wire_frame f \<noteq> []"
    using assms by (auto simp: wire_frame_def response_bytes_def valid_frame_def FIXED_FRAME_SIZE_def
        split: prod.splits if_splits)
  then show ?thesis
    using handle_connection_serves [of n conn_new "[wire_frame f]" "[f]" "[]" env st wr w] assms
    by (simp add: conn_new_def extract_short llll.stream_def llll.tail_ok_def)
qed

lemma demo_frame_valid:
  "valid_frame 8192 (demo_frame ''0100'', True)" "valid_frame 8192 (demo_frame ''010'', True)"
proof -
  have "demo_frame ''0100'' \<noteq> []" "demo_frame ''010'' \<noteq> []"
    using demo_frame_length by (metis list.size(3) zero_neq_numeral)+
  then show "valid_frame 8192 (demo_frame ''0100'', True)" "valid_frame 8192 (demo_frame ''010'', True)"
    by (simp_all add: valid_frame_def)
qed

lemma demo_010_panics: "snd (process_frame demo_env st w (demo_frame ''010'')) = Panic"
  by (simp add: process_frame_answer build_response_panics byte_len_response_type)
    (simp add: lit_def utf8_len_def)

text \<open>
  A telegram with a message type of three characters, padded with a space as every field is, is
  published and then ends its connection's task by a panic, with no answer and no alert; the same
  telegram sent again panics again.
\<close>

lemma short_type_panics_after_publish:
  "\<exists>w. handle_connection demo_env demo_state demo_write 8192 demo_world0 conn_new
         [Read_Bytes (wire_frame (demo_frame ''010'', True))] = (w, Inl Task_Panicked) \<and>
       length (dw_published w) = 1 \<and> dw_sent w = [] \<and>
       connection_alert Task_Panicked True = False \<and>
       snd (process_frame demo_env demo_state w (demo_frame ''010'')) = Panic"
proof -
  let ?w = "demo_world0\<lparr>dw_keys := [dedup_key (lit ''202406180001'')],
      dw_published := [publication_of (lit ''events'') (str_bytes (lit ''202406180001''))]\<rparr>"
  have "process_frame demo_env demo_state demo_world0 (demo_frame ''010'') = (?w, Panic)"
    using demo_process_world [OF demo_fields_ok(3)] demo_010_panics
    by (metis prod.collapse)
  then have "serve_frames demo_env demo_state demo_write demo_world0 [(demo_frame ''010'', True)] =
      (?w, Inl Task_Panicked)"
    by (simp add: respond_def)
  then have "handle_connection demo_env demo_state demo_write 8192 demo_world0 conn_new
      [Read_Bytes (wire_frame (demo_frame ''010'', True))] = (?w, Inl Task_Panicked)"
    unfolding drain_one [OF demo_frame_valid(2)] by (simp add: after_serving_def)
  then show ?thesis
    using demo_010_panics
    by (intro exI [of _ ?w]) (simp add: connection_alert_def demo_world0_def)
qed

text \<open>
  The answer never tells what became of the event: it depends on the frame and the decoder alone,
  not on Redis, the broker or the clock. A telegram dropped because Redis or the broker failed is
  answered with the code 00, like one that was published.
\<close>

lemma answer_ignores_services:
  assumes "euc_kr_decode env' = euc_kr_decode env"
  shows "snd (process_frame env' st' w' frame) = snd (process_frame env st w frame)"
  by (simp add: process_frame_answer assms)

lemma failing_services_answered:
  "snd (process_frame failing_env demo_state demo_world0 (demo_frame ''0100'')) =
     snd (process_frame demo_env demo_state demo_world0 (demo_frame ''0100'')) \<and>
   dw_published (fst (process_frame failing_env demo_state demo_world0 (demo_frame ''0100''))) = []"
proof
  show "snd (process_frame failing_env demo_state demo_world0 (demo_frame ''0100'')) =
     snd (process_frame demo_env demo_state demo_world0 (demo_frame ''0100''))"
    by (rule answer_ignores_services) simp
qed (rule failing_process_world)

text \<open>
  A frame too short to be parsed makes no call at all and is answered with itself, code 00
  included from 26 bytes on.
\<close>

lemma short_frame_answered:
  assumes "length frame < 153"
  shows "process_frame env st w frame =
    (w, Ret (if 26 \<le> length frame then take 24 frame @ [48, 48] @ drop 26 frame else frame))"
  using assms
  by (simp add: process_frame_def parse_frame_def build_response_def Let_def copy_from_slice_def
      str_bytes_00)

lemma short_frame_answered_witness:
  "process_frame demo_env demo_state demo_world0 [65, 66] = (demo_world0, Ret [65, 66])"
  using short_frame_answered [of "[65, 66]" demo_env demo_state demo_world0] by simp

section \<open>Properties of the framing that are not the clean case\<close>

lemma zero_header: "str_bytes (pad_dec 4 0) = [48, 48, 48, 48]"
  by (simp add: pad_dec_def dec_str.simps str_bytes_def encode_char_def numeral_eq_Suc)

lemma on_read_none:
  assumes "extract_frame n (buf c @ ch) = (None, b)" and "ch \<noteq> []"
  shows "on_read env st wr n w c (Read_Bytes ch) =
    (w, Inr (c\<lparr>total_bytes := total_bytes c + length ch, buf := b\<rparr>))"
  using assms by (simp add: on_read_def drain_loop.simps)

lemma extract_zeros:
  "4 \<le> k \<Longrightarrow> extract_frame n (replicate k 48) = (None, replicate (k - 4) 48)"
proof -
  assume k: "4 \<le> k"
  then have "replicate k (48 :: u8) = replicate 4 48 @ replicate (k - 4) 48"
    by (simp add: replicate_add [symmetric])
  also have "replicate 4 (48 :: u8) = str_bytes (pad_dec 4 (length ([] :: bytes)))"
    by (simp add: zero_header) (simp add: numeral_eq_Suc)
  finally show ?thesis
    using extract_header [of "[] :: bytes" n "replicate (k - 4) 48"] by simp
qed

text \<open>
  A header of zero length stops the inner loop: the four bytes are dropped, but whatever follows
  them in the same read stays in the buffer unserved, even a whole valid telegram, until more bytes
  arrive.
\<close>

lemma zero_length_header_stalls:
  "on_read env st wr n w conn_new (Read_Bytes ([48, 48, 48, 48] @ rest)) =
     (w, Inr \<lparr> buf = rest, total_bytes = 4 + length rest, frame_count = 0 \<rparr>)"
  using on_read_none [of n conn_new "[48, 48, 48, 48] @ rest" rest env st wr w]
    extract_header [of "[] :: bytes" n rest]
  by (simp add: conn_new_def zero_header)

text \<open>
  The buffer of a connection is not bounded by the frame limit: a peer that sends nothing but the
  digit 0 in reads of 4096 bytes has four bytes dropped per read and the rest kept, so after
  \<open>k\<close> reads the buffer holds 4092 k bytes, whatever the limit is, and no frame was ever served.
\<close>

lemma zeros_grow_buffer:
  "handle_connection env st wr n w conn_new (replicate k (Read_Bytes (replicate 4096 48))) =
     (w, Inr \<lparr> buf = replicate (4092 * k) 48, total_bytes = 4096 * k, frame_count = 0 \<rparr>)"
proof -
  have step: "on_read env st wr n w \<lparr> buf = replicate j 48, total_bytes = m, frame_count = 0 \<rparr>
      (Read_Bytes (replicate 4096 48)) =
      (w, Inr \<lparr> buf = replicate (4092 + j) 48, total_bytes = m + 4096, frame_count = 0 \<rparr>)" for j m
    using extract_zeros [of "j + 4096" n]
    by (subst on_read_none [of n _ _ "replicate (4092 + j) 48"])
      (simp_all add: replicate_add [symmetric] add.commute)
  have "handle_connection env st wr n w \<lparr> buf = replicate j 48, total_bytes = m, frame_count = 0 \<rparr>
      (replicate k (Read_Bytes (replicate 4096 48))) =
      (w, Inr \<lparr> buf = replicate (4092 * k + j) 48, total_bytes = m + 4096 * k, frame_count = 0 \<rparr>)"
    for j m
    by (induction k arbitrary: j m) (simp_all add: step)
  from this [of 0 0] show ?thesis by (simp add: conn_new_def)
qed

text \<open>
  A frame over the limit is not skipped. Its header clears the buffer, so a payload that arrives
  in the next read is itself cut into frames: telegrams inside the payload of a frame that was
  refused are served as if the terminal had sent them.
\<close>

lemma oversized_payload_served:
  assumes "length h \<le> 9999" and "n < length h" and "valid_frame n f"
  shows "handle_connection env st wr n w conn_new
      [Read_Bytes (str_bytes (pad_dec 4 (length h))), Read_Bytes (wire_frame f)] =
    (case serve_frames env st wr w [f] of
       (w', Inl stop) \<Rightarrow> (w', Inl stop)
     | (w', Inr _) \<Rightarrow>
         (w', Inr \<lparr> buf = [], total_bytes = 4 + length (wire_frame f), frame_count = 1 \<rparr>))"
proof -
  let ?hd = "str_bytes (pad_dec 4 (length h))"
  have hd: "?hd \<noteq> []"
    using header_length [OF assms(1)] by (metis list.size(3) zero_neq_numeral)
  have "extract_frame n ?hd = (None, [])"
    using extract_header [OF assms(1), of n "[]"] assms(2) by auto
  then have first: "on_read env st wr n w conn_new (Read_Bytes ?hd) =
      (w, Inr \<lparr> buf = [], total_bytes = 4, frame_count = 0 \<rparr>)"
    using on_read_none [of n conn_new ?hd "[]" env st wr w] hd header_length [OF assms(1)]
    by (simp add: conn_new_def)
  have "wire_frame f \<noteq> []"
    using assms(3) by (auto simp: wire_frame_def response_bytes_def valid_frame_def
        FIXED_FRAME_SIZE_def split: prod.splits if_splits)
  then have "handle_connection env st wr n w \<lparr> buf = [], total_bytes = 4, frame_count = 0 \<rparr>
      (map Read_Bytes [wire_frame f]) =
    after_serving \<lparr> buf = [], total_bytes = 4 + length (wire_frame f), frame_count = 0 \<rparr> [] 1
      (serve_frames env st wr w [f])"
    using handle_connection_serves [of n "\<lparr> buf = [], total_bytes = 4, frame_count = 0 \<rparr>"
        "[wire_frame f]" "[f]" "[]" env st wr w] assms(3)
    by (simp add: extract_short llll.stream_def llll.tail_ok_def)
  then show ?thesis
    by (simp add: first after_serving_def split: prod.splits sum.splits)
qed

lemma oversized_payload_served_demo:
  "\<exists>w. handle_connection demo_env demo_state demo_write 8192 demo_world0 conn_new
     [Read_Bytes (str_bytes (pad_dec 4 9000)),
      Read_Bytes (wire_frame (demo_frame ''010'', True))] = (w, Inl Task_Panicked)"
proof -
  let ?h = "replicate 9000 0 :: bytes"
  have "snd (serve_frames demo_env demo_state demo_write demo_world0 [(demo_frame ''010'', True)]) =
      Inl Task_Panicked"
    using demo_010_panics [of demo_state demo_world0]
    by (auto simp: respond_def split: prod.splits rust.splits)
  then show ?thesis
    using oversized_payload_served [of ?h 8192 "(demo_frame ''010'', True)" demo_env demo_state
        demo_write demo_world0] demo_frame_valid(2)
    by (auto split: prod.splits sum.splits)
qed

section \<open>The work of a connection\<close>

lemma extract_frame_takes:
  "extract_frame n b = (Some f, b') \<Longrightarrow> length b' + 5 \<le> length b"
  "extract_frame n b = (None, b') \<Longrightarrow> length b' \<le> length b"
  by (auto simp: extract_frame_def Let_def FIXED_FRAME_SIZE_def split: if_splits option.splits)

lemma drain_loop_work:
  "drain_loop env st write n w c = (w', Inr c') \<Longrightarrow>
     total_bytes c' = total_bytes c \<and>
     5 * frame_count c' + length (buf c') \<le> 5 * frame_count c + length (buf c)"
proof (induction env st "write" n w c rule: drain_loop.induct)
  case (1 env st wr n w c)
  obtain x b where e: "extract_frame n (buf c) = (x, b)" by force
  show ?case
  proof (cases x)
    case None
    with 1(2) e extract_frame_takes(2) [of n "buf c" b] show ?thesis
      by (auto simp: drain_loop.simps [of env st wr n w c])
  next
    case (Some f)
    with 1(2) e obtain w1 u where r: "respond env st wr w f = (w1, Inr u)"
      and rest: "drain_loop env st wr n w1 (c\<lparr>buf := b, frame_count := frame_count c + 1\<rparr>) = (w', Inr c')"
      by (auto simp: drain_loop.simps [of env st wr n w c] split: prod.splits sum.splits)
    from 1(1) [OF e [symmetric] Some r [symmetric] refl rest] extract_frame_takes(1) [of n "buf c" f b] e Some
    show ?thesis by simp
  qed
qed

fun received_bytes :: "read_event list \<Rightarrow> nat" where
  "received_bytes [] = 0"
| "received_bytes (ev # evs) =
     (case ev of Read_Bytes b \<Rightarrow> length b | Read_Error k \<Rightarrow> 0 | Read_Timeout \<Rightarrow> 0) + received_bytes evs"

lemma on_read_work:
  assumes "on_read env st write n w c ev = (w', Inr c')"
  shows "total_bytes c' = total_bytes c + received_bytes [ev] \<and>
    5 * frame_count c' + length (buf c') \<le> 5 * frame_count c + length (buf c) + received_bytes [ev]"
proof -
  obtain tmp where ev: "ev = Read_Bytes tmp"
    "drain_loop env st write n w (c\<lparr>total_bytes := total_bytes c + length tmp, buf := buf c @ tmp\<rparr>) =
      (w', Inr c')"
    using assms by (auto simp: on_read_def split: read_event.splits if_splits)
  from drain_loop_work [OF ev(2)] show ?thesis by (simp add: ev(1))
qed

text \<open>
  C29: the work a peer can cause is bounded by the bytes it sends, whatever they are. Every turn of the
  inner loop takes at least five bytes from the buffer, so a read ends after finitely many turns and
  a connection that is still open has served at most one frame per five bytes received,,
  with the bytes it buffers counted too.
\<close>

theorem connection_work_bound:
  assumes "handle_connection env st write n w c evs = (w', Inr c')"
  shows "total_bytes c' = total_bytes c + received_bytes evs \<and>
    5 * frame_count c' + length (buf c') \<le> 5 * frame_count c + length (buf c) + received_bytes evs"
  using assms
proof (induction evs arbitrary: w c)
  case (Cons ev evs)
  then obtain w1 c1 where step: "on_read env st write n w c ev = (w1, Inr c1)"
    and rest: "handle_connection env st write n w1 c1 evs = (w', Inr c')"
    by (auto split: prod.splits sum.splits)
  from Cons.IH [OF rest] on_read_work [OF step] show ?case by simp
qed simp

theorem connection_work_bound_witness:
  "\<exists>w' c'. handle_connection demo_env demo_state demo_write 8192 demo_world0 conn_new
       [Read_Bytes (wire_frame ([65, 66], True))] = (w', Inr c') \<and>
     frame_count c' = 1 \<and> 5 * frame_count c' + length (buf c') \<le> length (wire_frame ([65, 66], True))"
proof -
  let ?f = "([65, 66], True) :: bytes \<times> bool"
  have "valid_frame 8192 ?f" by (simp add: valid_frame_def)
  then have "\<exists>w' c'. handle_connection demo_env demo_state demo_write 8192 demo_world0 conn_new
      [Read_Bytes (wire_frame ?f)] = (w', Inr c') \<and> frame_count c' = 1"
    unfolding drain_one [of 8192 ?f, OF \<open>valid_frame 8192 ?f\<close>]
    using short_frame_answered_witness
    by (simp add: respond_def demo_write_def after_serving_def conn_new_def)
  then obtain w' c' where
    run: "handle_connection demo_env demo_state demo_write 8192 demo_world0 conn_new
      [Read_Bytes (wire_frame ?f)] = (w', Inr c')" "frame_count c' = 1" by blast
  from connection_work_bound [OF run(1)] run show ?thesis by (simp add: conn_new_def)
qed

end
