(* ===== verification/Pipeline.thy ===== *)
theory Pipeline
  imports Card_Properties Tcp_Properties
begin

text \<open>
  From the TCP listener to the tables: what \<open>process_frame\<close> publishes for a telegram, and what the two
  consumers make of the published body. The text between them is the work of \<open>serde_json\<close> on the
  derived instances of one and the same struct; what is relied on is that a message survives it.
\<close>

section \<open>Messages that read the same\<close>

definition same_message :: "queue_message \<Rightarrow> queue_message \<Rightarrow> bool" where
  "same_message m m' \<longleftrightarrow>
     qm_id m' = qm_id m \<and> qm_event_type m' = qm_event_type m \<and> qm_timestamp m' = qm_timestamp m \<and>
     qm_received_at m' = qm_received_at m \<and> qm_table_key m' = qm_table_key m \<and>
     (\<forall>k d. str_field (qm_payload m') k d = str_field (qm_payload m) k d)"

definition survives_queue :: "'w env \<Rightarrow> ('v, 'k, 'q) sink \<Rightarrow> queue_message \<Rightarrow> bool" where
  "survives_queue env sk m \<longleftrightarrow>
     (\<forall>b. to_vec env m = Inr b \<longrightarrow> (\<exists>m'. from_slice sk b = Inr m' \<and> same_message m m'))"

lemma to_kicc_row_same: "same_message m m' \<Longrightarrow> to_kicc_row m' = to_kicc_row m"
  by (simp add: same_message_def to_kicc_row_def Let_def split: option.split)

lemma to_daily_row_same: "same_message m m' \<Longrightarrow> to_daily_row ch m' = to_daily_row ch m"
  by (simp add: same_message_def to_daily_row_def Let_def split: option.split)

section \<open>What a frame publishes\<close>

lemma is_new_publishes_nothing:
  "is_new (traced env) ttl (w, []) eid = ((w', l'), r) \<Longrightarrow> Publish_Call p a \<notin> set l'"
  by (auto simp: is_new_def split: if_splits prod.splits sum.splits)

lemma publish_calls_body:
  assumes "publish (traced env) x (w, l) m = ((w', l'), r)" and "Publish_Call p a \<in> set l'"
  shows "Publish_Call p a \<in> set l \<or> (\<exists>body. to_vec env m = Inr body \<and> p = publication_of x body)"
  using assms by (auto simp: publish_def split: sum.splits prod.splits)

lemma process_frame_publishes:
  assumes m: "parse_frame env w f = Inr m"
    and run: "process_frame (traced env) st (w, []) f = ((w', es), r)"
    and pub: "Publish_Call p a \<in> set es"
  shows "\<exists>body. to_vec env m = Inr body \<and> p = publication_of (st_exchange st) body"
proof -
  have m': "parse_frame (traced env) (w, []) f = Inr m"
    using m by (auto simp: parse_frame_def Let_def split: if_splits)
  obtain w1 l1 x where new: "is_new (traced env) (st_ttl_secs st) (w, []) (qm_id m) = ((w1, l1), x)"
    by (metis surj_pair)
  note none = is_new_publishes_nothing [OF new, of p a]
  show ?thesis
  proof (cases x)
    case (Inl e)
    with m' new run have "es = l1" by (simp add: process_frame_def Let_def)
    with none pub show ?thesis by simp
  next
    case (Inr b)
    show ?thesis
    proof (cases b)
      case False
      with Inr m' new run have "es = l1" by (simp add: process_frame_def Let_def)
      with none pub show ?thesis by simp
    next
      case True
      obtain w2 l2 c where p2: "publish (traced env) (st_exchange st) (w1, l1) m = ((w2, l2), c)"
        by (metis surj_pair)
      with True Inr m' new run have "es = l2" by (simp add: process_frame_def Let_def)
      with publish_calls_body [OF p2] none pub show ?thesis by blast
    qed
  qed
qed

section \<open>The rows of a telegram\<close>

definition card_kicc_row :: "rstr list \<Rightarrow> nat \<Rightarrow> kicc_row" where
  "card_kicc_row fs n =
     \<lparr> table = lit ''kicc_b'' @ fs ! 18, kicc_bid = fs ! 18, kicc_tid = fs ! 2,
       kicc_mid = take 8 (fs ! 17), kicc_psn = fs ! 4, kicc_nick = fs ! 14,
       kicc_trantype = take 1 (fs ! 19), kicc_cardnumber = take 10 (mask_card_no (fs ! 7)),
       kicc_amount = word_of_nat n, kicc_rescode = fs ! 3, kicc_trno = fs ! 2,
       kicc_acquirer = fs ! 16, kicc_approve = fs ! 8, kicc_date = fs ! 9 @ fs ! 10,
       kicc_datetime = card_datetime (fs ! 9) (fs ! 10) \<rparr>"

definition card_daily_row :: "rstr list \<Rightarrow> int \<Rightarrow> nat \<Rightarrow> nat \<Rightarrow> daily_row" where
  "card_daily_row fs d h n =
     \<lparr> ts_unix = word_of_int (86400 * d + 3600 * int h - 9 * 3600), dr_bid = fs ! 18,
       dr_mid = fs ! 17, dr_psn = fs ! 4,
       dr_totals = card_totals (fs ! 19) (fs ! 1) (word_of_nat n) \<rparr>"

text \<open>
  C19: a telegram reaches both tables. For a well-formed telegram of a business number of letters and
  digits, whatever the listener publishes goes to the configured exchange, and the delivery of its
  body is for the MySQL consumer the row of the telegram's fields (amount as a number, date and time
  joined both ways, merchant number cut to eight, card number the first ten of its masked form) in
  the table of the business number, and for the PostgreSQL consumer the row of its hour in Korean
  time, with the amount in the cancel totals when the cancel flag is neither empty nor 0, else in the
  card totals exactly for the message type 0200, and else in the other totals.
\<close>

theorem telegram_reaches_tables:
  assumes "decodes_ascii (euc_kr_decode env)" and "fields_ok fs"
    and "\<And>now. survives_queue env my_sink (card_message fs now)"
    and "\<And>now. survives_queue env pg_sink (card_message fs now)" and "chrono_ok ch"
    and "fs ! 18 \<noteq> []" and "\<forall>c \<in> set (fs ! 18). is_alnum_char c"
    and "length (fs ! 9) = 8" and "parse_ymd ch (fs ! 9) = Some d" and "length (fs ! 10) = 6"
    and "parse_unsigned 32 (take 2 (fs ! 10)) = Some h" and "h < 24"
    and "fs ! 6 = pad_dec 10 n" and "n < 10 ^ 10"
    and "process_frame (traced env) st (w, []) (telegram fs) = ((w', es), r)"
    and "Publish_Call p a \<in> set es"
  shows "pub_exchange p = st_exchange st \<and>
    row_of my_sink \<lparr> dl_tag = tag, dl_data = pub_body p \<rparr> = Some (card_kicc_row fs n) \<and>
    day_row pg_sink ch \<lparr> dl_tag = tag, dl_data = pub_body p \<rparr> = Ret (Some (card_daily_row fs d h n))"
proof -
  obtain now where m: "parse_frame env w (telegram fs) = Inr (card_message fs now)"
    using parse_card_message [OF assms(1,2)] by blast
  from process_frame_publishes [OF m assms(15,16)] obtain body where
    body: "to_vec env (card_message fs now) = Inr body" "p = publication_of (st_exchange st) body" by blast
  obtain m1 where m1: "from_slice my_sink body = Inr m1" "same_message (card_message fs now) m1"
    using assms(3) body(1) unfolding survives_queue_def by blast
  obtain m2 where m2: "from_slice pg_sink body = Inr m2" "same_message (card_message fs now) m2"
    using assms(4) body(1) unfolding survives_queue_def by blast
  have "to_kicc_row m1 = Ret (Some (card_kicc_row fs n))"
    using kicc_row_of_card [OF assms(2,6,7,8,10,13,14)] to_kicc_row_same [OF m1(2)]
    by (simp add: card_kicc_row_def)
  moreover have "2 \<le> length (fs ! 10)" using assms(10) by simp
  then have "to_daily_row ch m2 = Ret (Some (card_daily_row fs d h n))"
    using daily_row_of_card [OF assms(5,2,6,8,9) _ assms(11,12,13,14)] to_daily_row_same [OF m2(2)]
    by (simp add: card_daily_row_def)
  ultimately show ?thesis
    using body(2) m1(1) m2(1) by (simp add: row_of_def day_row_def publication_of_def)
qed

text \<open>The services of the demonstration with a serialiser for one message.\<close>

definition pipe_env :: "demo_world env" where
  "pipe_env = demo_env\<lparr>to_vec := (\<lambda>m. if m = card_message demo_card 1000 then Inr [1] else Inl (lit ''error''))\<rparr>"

lemma pipe_env_sel [simp]:
  "clock_ms pipe_env = (\<lambda>w. Some 1000)" "euc_kr_decode pipe_env = map unat"
  "redis_query pipe_env = demo_redis"
  "to_vec pipe_env = (\<lambda>m. if m = card_message demo_card 1000 then Inr [1] else Inl (lit ''error''))"
  "await_confirm pipe_env = (\<lambda>w t. (w, Inr Confirm_Ack))"
  "basic_publish pipe_env = (\<lambda>w p. (w\<lparr>dw_published := dw_published w @ [p]\<rparr>, Inr 0))"
  by (simp_all add: pipe_env_def)

lemma pipe_survives:
  "survives_queue pipe_env (demo_sink :: (unit, 'k, 'q) sink) (card_message demo_card now)"
  by (simp add: survives_queue_def same_message_def)

lemma pipe_parses: "parse_frame pipe_env w (telegram demo_card) = Inr (card_message demo_card 1000)"
  by (simp add: parse_telegram_eq demo_decodes_ascii demo_fields_ok card_message_def millis_i64_def)

lemma pipe_run:
  "\<exists>w' es r p. process_frame (traced pipe_env) demo_state (demo_world0, []) (telegram demo_card) =
     ((w', es), r) \<and> Publish_Call p (Inr 0) \<in> set es"
proof -
  have m: "parse_frame (traced pipe_env) (demo_world0, []) (telegram demo_card) =
      Inr (card_message demo_card 1000)"
    using pipe_parses [of demo_world0] by (auto simp: parse_frame_def Let_def split: if_splits)
  have "qm_id (card_message demo_card 1000) = lit ''202406180001''"
    by (simp add: card_message_def)
  with m show ?thesis
    using demo_id_length
    by (auto simp: process_frame_def Let_def is_new_def demo_key_new publish_def demo_state_def
        demo_redis_def demo_world0_def set_nx_args_def)
qed

theorem telegram_reaches_tables_witness:
  "\<exists>w' es r p. process_frame (traced pipe_env) demo_state (demo_world0, []) (telegram demo_card) =
       ((w', es), r) \<and> Publish_Call p (Inr 0) \<in> set es \<and>
     row_of (demo_sink :: unit mysql_sink) \<lparr> dl_tag = 1, dl_data = pub_body p \<rparr> =
       Some (card_kicc_row demo_card 50000) \<and>
     day_row (demo_sink :: unit pg_sink) demo_chrono \<lparr> dl_tag = 1, dl_data = pub_body p \<rparr> =
       Ret (Some (card_daily_row demo_card 19892 14 50000))"
proof -
  obtain w' es r p where run:
    "process_frame (traced pipe_env) demo_state (demo_world0, []) (telegram demo_card) = ((w', es), r)"
    "Publish_Call p (Inr 0) \<in> set es"
    using pipe_run by blast
  have card: "demo_card ! 18 \<noteq> []" "\<forall>c \<in> set (demo_card ! 18). is_alnum_char c"
    "length (demo_card ! 9) = 8" "parse_ymd demo_chrono (demo_card ! 9) = Some 19892"
    "length (demo_card ! 10) = 6" "parse_unsigned 32 (take 2 (demo_card ! 10)) = Some 14"
    "demo_card ! 6 = pad_dec 10 50000"
    unfolding demo_card_nth
    by (simp_all add: demo_digits demo_amount demo_hour demo_chrono_ok(2)) (simp_all add: lit_def)
  note telegram_reaches_tables [OF _ demo_fields_ok(1) pipe_survives pipe_survives demo_chrono_ok(1)
      card(1-6) _ card(7) _ run]
  then show ?thesis using run by (auto simp: demo_decodes_ascii)
qed

end
