(* ===== verification/Published.thy ===== *)
theory Published
  imports Ingest_Steps Pipeline Consumer_Life
begin

text \<open>
  What the interleaved requests of \<open>Ingest_Steps\<close> put on the exchange, and the rows that come of it:
  every publication of a task is the message of its request, so a delivery of it becomes the rows of
  that telegram in the two databases, or no row when the request was an HTTP event.
\<close>

section \<open>The messages of a request\<close>

definition may_publish :: "'w env \<Rightarrow> ingest_request \<Rightarrow> queue_message \<Rightarrow> bool" where
  "may_publish env q m \<longleftrightarrow>
     (case q of
        Http_Event e \<Rightarrow> \<exists>now. m = event_message e now
      | Tcp_Frame f \<Rightarrow> \<exists>w. parse_frame env w f = Inr m)"

lemma begin_request_message:
  assumes "begin_request (traced env) st (w, []) q = (wl, Some m)"
  shows "may_publish env q m"
proof (cases q)
  case (Http_Event e)
  obtain w1 l1 x where new: "is_new (traced env) (st_ttl_secs st) (w, []) (ev_id e) = ((w1, l1), x)"
    by (metis surj_pair)
  show ?thesis
  proof (cases "validate_event e")
    case None
    with assms Http_Event new show ?thesis
      by (cases x rule: bool_result) (auto simp: begin_request_def may_publish_def)
  next
    case (Some err)
    with assms Http_Event show ?thesis by (simp add: begin_request_def)
  qed
next
  case (Tcp_Frame f)
  show ?thesis
  proof (cases "parse_frame env w f")
    case (Inl err)
    with assms Tcp_Frame show ?thesis by (simp add: begin_request_def parse_frame_traced)
  next
    case (Inr m')
    obtain w1 l1 x where "is_new (traced env) (st_ttl_secs st) (w, []) (qm_id m') = ((w1, l1), x)"
      by (metis surj_pair)
    with assms Tcp_Frame Inr show ?thesis
      by (cases x rule: bool_result) (auto simp: begin_request_def may_publish_def parse_frame_traced)
  qed
qed

lemma task_step_message:
  assumes "task_step (traced env) st q (w, []) t = (wl, To_Publish m)"
  shows "may_publish env q m"
proof (cases t)
  case Waiting
  with assms show ?thesis
    by (auto simp: task_step_def intro: begin_request_message split: prod.splits option.splits)
qed (use assms in \<open>auto simp: task_step_def split: prod.splits sum.splits\<close>)

lemma task_step_publication:
  assumes step: "task_step (traced env) st q (w, []) t = ((w', es), t')" and pub: "Publish_Call p a \<in> set es"
  shows "\<exists>m body. t = To_Publish m \<and> to_vec env m = Inr body \<and> p = publication_of (st_exchange st) body"
proof (cases t)
  case Waiting
  obtain w1 l1 r where b: "begin_request (traced env) st (w, []) q = ((w1, l1), r)" by (metis surj_pair)
  with step Waiting have "es = l1" by (auto simp: task_step_def split: option.splits)
  with begin_request_asks [OF b] pub show ?thesis by auto
qed (use step pub in \<open>auto simp: task_step_def split: prod.splits sum.splits\<close>)

text \<open>The log of a schedule.\<close>

definition log_publishes ::
  "'w env \<Rightarrow> app_state \<Rightarrow> (nat \<Rightarrow> ingest_request) \<Rightarrow> 'w tasks_state \<Rightarrow> bool" where
  "log_publishes env st qs s \<longleftrightarrow>
     (\<forall>i m. ts_task s i = To_Publish m \<longrightarrow> may_publish env (qs i) m) \<and>
     (\<forall>i p a. (i, Publish_Call p a) \<in> set (ts_log s) \<longrightarrow>
        (\<exists>m body. may_publish env (qs i) m \<and> to_vec env m = Inr body \<and>
           p = publication_of (st_exchange st) body))"

lemma move_publishes:
  assumes inv: "log_publishes env st qs s"
  shows "log_publishes env st qs (move env st qs s i)"
proof -
  obtain w' es t' where step:
    "task_step (traced env) st (qs i) (ts_world s, []) (ts_task s i) = ((w', es), t')" by (metis surj_pair)
  have tasks: "may_publish env (qs j) m" if "((ts_task s)(i := t')) j = To_Publish m" for j m
    using that inv task_step_message [of env st "qs i" "ts_world s" "ts_task s i" "(w', es)" m] step
    by (auto simp: log_publishes_def split: if_splits)
  have log: "\<exists>m body. may_publish env (qs j) m \<and> to_vec env m = Inr body \<and>
      p = publication_of (st_exchange st) body" if "(j, Publish_Call p a) \<in> set (map (Pair i) es)" for j p a
  proof -
    from that have "j = i" "Publish_Call p a \<in> set es" by auto
    from task_step_publication [OF step this(2)] inv \<open>j = i\<close> show ?thesis
      unfolding log_publishes_def by blast
  qed
  show ?thesis
    using inv tasks log unfolding log_publishes_def by (auto simp: move_def step)
qed

lemma run_schedule_publishes:
  "log_publishes env st qs s \<Longrightarrow> log_publishes env st qs (run_schedule env st qs s sch)"
  by (induction sch arbitrary: s) (simp_all add: move_publishes)

lemma published_message:
  assumes "(i, Publish_Call p a) \<in> set (ts_log (run_schedule env st qs (tasks_start w) sch))"
  shows "\<exists>m body. may_publish env (qs i) m \<and> to_vec env m = Inr body \<and> p = publication_of (st_exchange st) body"
proof -
  have "log_publishes env st qs (tasks_start w)" by (simp add: log_publishes_def tasks_start_def)
  from run_schedule_publishes [OF this] assms show ?thesis unfolding log_publishes_def by blast
qed

section \<open>The rows of a request\<close>

text \<open>
  A well-formed telegram: its business number has letters and digits, its date is the day \<open>d\<close>, its
  time of the hour \<open>h\<close>, and its amount \<open>n\<close>.
\<close>

definition card_ok :: "chrono \<Rightarrow> rstr list \<Rightarrow> int \<Rightarrow> nat \<Rightarrow> nat \<Rightarrow> bool" where
  "card_ok ch fs d h n \<longleftrightarrow>
     fields_ok fs \<and> fs ! 18 \<noteq> [] \<and> (\<forall>c \<in> set (fs ! 18). is_alnum_char c) \<and>
     length (fs ! 9) = 8 \<and> parse_ymd ch (fs ! 9) = Some d \<and>
     length (fs ! 10) = 6 \<and> parse_unsigned 32 (take 2 (fs ! 10)) = Some h \<and> h < 24 \<and>
     fs ! 6 = pad_dec 10 n \<and> n < 10 ^ 10"

definition request_rows :: "chrono \<Rightarrow> ingest_request \<Rightarrow> (kicc_row \<times> daily_row) option \<Rightarrow> bool" where
  "request_rows ch q r \<longleftrightarrow>
     (case q of
        Http_Event e \<Rightarrow> r = None
      | Tcp_Frame f \<Rightarrow>
          \<exists>fs d h n. f = telegram fs \<and> card_ok ch fs d h n \<and>
            r = Some (card_kicc_row fs n, card_daily_row fs d h n))"

lemma card_message_rows:
  assumes "card_ok ch fs d h n" and ch: "chrono_ok ch"
  shows "to_kicc_row (card_message fs now) = Ret (Some (card_kicc_row fs n))"
    and "to_daily_row ch (card_message fs now) = Ret (Some (card_daily_row fs d h n))"
proof -
  from assms(1) have c: "fields_ok fs" "fs ! 18 \<noteq> []" "\<forall>c \<in> set (fs ! 18). is_alnum_char c"
    "length (fs ! 9) = 8" "parse_ymd ch (fs ! 9) = Some d" "length (fs ! 10) = 6"
    "parse_unsigned 32 (take 2 (fs ! 10)) = Some h" "h < 24" "fs ! 6 = pad_dec 10 n" "n < 10 ^ 10"
    by (simp_all add: card_ok_def)
  show "to_kicc_row (card_message fs now) = Ret (Some (card_kicc_row fs n))"
    unfolding card_kicc_row_def by (rule kicc_row_of_card) (fact c)+
  have "2 \<le> length (fs ! 10)" using c(6) by simp
  then show "to_daily_row ch (card_message fs now) = Ret (Some (card_daily_row fs d h n))"
    unfolding card_daily_row_def by (rule daily_row_of_card [OF ch c(1,2,4,5) _ c(7,8,9,10)])
qed

lemma request_message_rows:
  assumes "may_publish env q m" and "request_rows ch q r"
    and dec: "decodes_ascii (euc_kr_decode env)" and ch: "chrono_ok ch"
  shows "to_kicc_row m = Ret (map_option fst r)" and "to_daily_row ch m = Ret (map_option snd r)"
proof -
  have "to_kicc_row m = Ret (map_option fst r) \<and> to_daily_row ch m = Ret (map_option snd r)"
  proof (cases q)
    case (Http_Event e)
    with assms(1,2) show ?thesis
      by (auto simp: may_publish_def request_rows_def to_kicc_row_def to_daily_row_def resolve_table_def
          event_message_def)
  next
    case (Tcp_Frame f)
    with assms(2) obtain fs d h n where f: "f = telegram fs" "card_ok ch fs d h n"
      "r = Some (card_kicc_row fs n, card_daily_row fs d h n)" by (auto simp: request_rows_def)
    from assms(1) Tcp_Frame obtain w where "parse_frame env w (telegram fs) = Inr m"
      by (auto simp: may_publish_def f(1))
    moreover have "fields_ok fs" using f(2) by (simp add: card_ok_def)
    ultimately obtain now where "m = card_message fs now"
      using parse_card_message [OF dec, of fs w] by auto
    with card_message_rows [OF f(2) ch, of now] f(3) show ?thesis by simp
  qed
  then show "to_kicc_row m = Ret (map_option fst r)" and "to_daily_row ch m = Ret (map_option snd r)"
    by simp_all
qed

text \<open>A delivery that carries what a task published.\<close>

definition carries_request :: "(nat \<times> call) list \<Rightarrow> delivery \<Rightarrow> nat \<Rightarrow> bool" where
  "carries_request l d i \<longleftrightarrow> (\<exists>p a. (i, Publish_Call p a) \<in> set l \<and> pub_body p = dl_data d)"

lemma delivery_message:
  assumes "carries_request (ts_log (run_schedule env st qs (tasks_start w) sch)) d i"
    and "request_rows ch (qs i) r" and "decodes_ascii (euc_kr_decode env)" and "chrono_ok ch"
    and "\<And>m. may_publish env (qs i) m \<Longrightarrow> survives_queue env sk m"
  shows "\<exists>m. from_slice sk (dl_data d) = Inr m \<and> to_kicc_row m = Ret (map_option fst r) \<and>
    to_daily_row ch m = Ret (map_option snd r)"
proof -
  from assms(1) obtain p a where pa: "(i, Publish_Call p a) \<in> set (ts_log (run_schedule env st qs (tasks_start w) sch))"
    "pub_body p = dl_data d" unfolding carries_request_def by blast
  from published_message [OF pa(1)] obtain m body where m: "may_publish env (qs i) m"
    "to_vec env m = Inr body" "p = publication_of (st_exchange st) body" by blast
  then have "dl_data d = body" using pa(2) by (simp add: publication_of_def)
  with assms(5) [OF m(1)] m(2) obtain m' where "from_slice sk (dl_data d) = Inr m'" "same_message m m'"
    unfolding survives_queue_def by blast
  with request_message_rows [OF m(1) assms(2,3,4)] to_kicc_row_same [of m m'] to_daily_row_same [of m m' ch]
  show ?thesis by simp
qed

lemma delivery_rows:
  assumes "carries_request (ts_log (run_schedule env st qs (tasks_start w) sch)) d i"
    and "request_rows ch (qs i) r" and "decodes_ascii (euc_kr_decode env)" and "chrono_ok ch"
    and "\<And>m. may_publish env (qs i) m \<Longrightarrow> survives_queue env sk m"
  shows "row_of sk d = map_option fst r" and "day_row sk ch d = Ret (map_option snd r)"
  using delivery_message [OF assms(1-4), of sk] assms(5)
  by (auto simp: row_of_def day_row_def split: option.split)

text \<open>A delivery of such a publication panics no consumer, and is never dropped unread.\<close>

lemma delivery_fine:
  assumes "carries_request (ts_log (run_schedule env st qs (tasks_start w) sch)) d i"
    and "request_rows ch (qs i) r" and "decodes_ascii (euc_kr_decode env)" and "chrono_ok ch"
    and "\<And>m. may_publish env (qs i) m \<Longrightarrow> survives_queue env sk m"
  shows "mysql_fine sk d" and "\<not> settled_unstored sk d Nack_Drop"
    and "pg_fine sk ch d" and "\<not> day_unstored sk ch d Nack_Drop"
  using delivery_message [OF assms(1-4), of sk] assms(5)
  by (auto simp: mysql_fine_def pg_fine_def settled_unstored_def day_unstored_def)

lemma card_daily_row_small: "n < 10 ^ 10 \<Longrightarrow> small_totals (dr_totals (card_daily_row fs d h n))"
proof -
  assume n: "n < 10 ^ 10"
  then have "sint (word_of_int (int n) :: i64) = int n" by (intro sint_of_int_in_range) simp_all
  with n show ?thesis unfolding card_daily_row_def by (simp add: card_totals_small)
qed

end
