(* ===== verification/Daily_Refinement.thy ===== *)
theory Daily_Refinement
  imports Daily_Table Consumer_Life
begin

text \<open>
  The PostgreSQL consumer refines its specification: over a database that executes the statement as
  \<open>Daily_Table\<close> says, a run of any length, however it ends, leaves the table it found plus the rows of
  the deliveries it acknowledged, as integers. The log of a run is a word of the language \<open>day_log\<close>,
  and what the statements of such a word add is what its acknowledged deliveries weigh.
\<close>

section \<open>A run keeps what its calls keep\<close>

lemma aggregate_keeps:
  "sink_keeps sk P \<Longrightarrow> P w \<Longrightarrow> P (fst (aggregate sk ch w pairs gd agg))"
proof (induction sk ch w pairs gd agg rule: aggregate.induct)
  case (2 sk ch w d msg pairs gd agg)
  from sink_keepsD(3) [OF 2(3,4), of d Ack] 2 show ?case
    by (auto split: rust.split option.split)
qed simp

lemma pg_flush_keeps:
  assumes keeps: "sink_keeps sk P" and "P w"
  shows "P (fst (pg_flush sk ch nt w s))"
proof -
  obtain w1 a where agg: "aggregate sk ch w (zip (pg_deliveries s) (pg_messages s)) [] [] = (w1, a)"
    by force
  then have P1: "P w1" using aggregate_keeps [OF assms] by (metis fst_conv)
  show ?thesis
  proof (cases a)
    case Panic
    with agg P1 show ?thesis by (simp add: pg_flush_def)
  next
    case (Ret x)
    obtain gd m where x: "x = (gd, m)" by force
    obtain w2 b where ex: "execute sk w1 (upsert_of (agg_values sk w m)) = (w2, b)" by force
    from sink_keepsD(2) [OF keeps P1 this] have P2: "P w2" .
    have "P (settle_all sk w2 Ack gd)"
      and "P (settle_all sk (alert (post_json sk) nt w2 t) Nack_Drop gd)" for t
      by (rule settle_all_keeps [OF keeps P2], rule settle_all_keeps [OF keeps alert_keeps [OF keeps P2]])
    with agg Ret x ex P1 show ?thesis by (cases b) (simp_all add: pg_flush_def Let_def)
  qed
qed

lemma pg_step_keeps:
  assumes keeps: "sink_keeps sk P" and "P w"
  shows "P (fst (pg_step sk ch nt n w s ev))"
proof -
  have cont: "P (fst (pg_continue (pg_flush sk ch nt w s)))" if "P w" for w s
    using pg_flush_keeps [OF keeps that, of ch nt s]
    by (cases "pg_flush sk ch nt w s") (simp add: pg_continue_def split: rust.split)
  then have "P (fst (pg_flush_full sk ch nt n w s))" if "P w" for w s
    using that by (simp add: pg_flush_full_def)
  with cont assms(2) alert_keeps [OF assms] sink_keepsD(3) [OF assms] show ?thesis
    by (cases ev) (simp_all add: pg_step_def split: sum.split)
qed

lemma pg_run_keeps:
  assumes "sink_keeps sk P" and "P w"
  shows "P (fst (pg_run sk ch url q nt n secs nanos w evs))"
  unfolding pg_run_def
  by (rule run_consumer_keeps [OF assms(1) pg_step_keeps [OF assms(1)] assms(2)])

section \<open>The log of a run\<close>

lemma pg_run_log:
  assumes "day_log sk ch (max 1 n) (snd wl)"
  shows "day_log sk ch (max 1 n) (snd (fst (pg_run (traced_sink sk) ch url q nt n secs nanos wl evs)))"
proof -
  have step: "day_log sk ch (max 1 n) (snd (fst (pg_step (traced_sink sk) ch nt n wl s ev)))"
    if "pg_ok sk s" "length (pg_deliveries s) < max 1 n" "day_log sk ch (max 1 n) (snd wl)" for wl s ev
  proof -
    obtain v k v' k' x where st: "wl = (v, k)"
      "pg_step (traced_sink sk) ch nt n (v, k) s ev = ((v', k'), x)" by (metis surj_pair)
    from pg_step_log [OF that(1) st(2)] obtain es where
      "k' = k @ es" "day_log sk ch (Suc (length (pg_deliveries s))) es" by blast
    with that(2,3) st show ?thesis by (simp add: day_log_append day_log_mono)
  qed
  have loop: "day_log sk ch (max 1 n)
      (snd (fst (consume (pg_step (traced_sink sk) ch nt n) wl pg_state0 evs)))"
    if "day_log sk ch (max 1 n) (snd wl)" for wl
    using pg.run_invariant_bounded [where P = "\<lambda>wl. day_log sk ch (max 1 n) (snd wl)"
        and sk = sk and ch = ch and nt = nt and n = n and s = pg_state0 and w = wl and evs = evs,
        OF step] that
    by simp
  show ?thesis
    by (rule pg_run_cases [of sk ch url q nt n secs nanos wl evs])
      (use assms loop in simp_all)
qed

section \<open>Rows given and rows acknowledged\<close>

definition rows_in :: "pg_upsert db_call list \<Rightarrow> (agg_key \<times> (i64, i32) totals) list" where
  "rows_in l = concat (map unnest (stored_in l))"

definition day_rows :: "('w, 'k, 'q) sink \<Rightarrow> chrono \<Rightarrow> delivery list \<Rightarrow> daily_row list" where
  "day_rows sk ch ds =
     List.map_filter (\<lambda>d. case day_row sk ch d of Ret x \<Rightarrow> x | Panic \<Rightarrow> None) ds"

text \<open>A delivery whose row, if it has one, carries an amount a telegram can hold.\<close>

definition day_small :: "('w, 'k, 'q) sink \<Rightarrow> chrono \<Rightarrow> delivery \<Rightarrow> bool" where
  "day_small sk ch d \<longleftrightarrow> (\<forall>r. day_row sk ch d = Ret (Some r) \<longrightarrow> small_totals (dr_totals r))"

lemma rows_in_append [simp]: "rows_in (l @ m) = rows_in l @ rows_in m"
  by (simp add: rows_in_def)

lemma rows_in_quiet [simp]: "quiet es \<Longrightarrow> rows_in es = []"
  by (simp add: rows_in_def)

lemma day_rows_append [simp]: "day_rows sk ch (ds @ es) = day_rows sk ch ds @ day_rows sk ch es"
  by (simp add: day_rows_def List.map_filter_def)

lemma day_rows_all:
  "map (day_row sk ch) gs = map (\<lambda>x. Ret (Some x)) rows \<Longrightarrow> day_rows sk ch gs = rows"
proof (induction gs arbitrary: rows)
  case Nil
  then show ?case by (simp add: day_rows_def List.map_filter_def)
next
  case (Cons d gs)
  then obtain r rs where "rows = r # rs" "day_row sk ch d = Ret (Some r)"
    "day_rows sk ch gs = rs" by (cases rows) auto
  then show ?case by (simp add: day_rows_def)
qed

lemma day_rows_unstored: "day_unstored sk ch d v \<Longrightarrow> day_rows sk ch [d] = []"
  by (auto simp: day_rows_def day_unstored_def day_row_def List.map_filter_def split: sum.splits)

definition same_sums ::
  "(agg_key \<times> (i64, i32) totals) list \<Rightarrow> (agg_key \<times> (i64, i32) totals) list \<Rightarrow> bool" where
  "same_sums rs ss \<longleftrightarrow>
     fst ` set rs = fst ` set ss \<and> (\<forall>k. int_key_total k rs = int_key_total k ss)"

lemma same_sums_append: "same_sums a b \<Longrightarrow> same_sums c d \<Longrightarrow> same_sums (a @ c) (b @ d)"
  unfolding same_sums_def by (simp add: int_key_total_def image_Un del: split_paired_All)

lemma same_sums_refl [simp]: "same_sums a a"
  by (simp add: same_sums_def)

lemma same_sums_after: "same_sums a b \<Longrightarrow> after_rows T a = after_rows T b"
  by (rule after_rows_cong) (simp_all add: same_sums_def del: split_paired_All)

lemma day_log_rows:
  "day_log sk ch N l \<Longrightarrow> N \<le> 65535 \<Longrightarrow> \<forall>d \<in> set (acked_in l). day_small sk ch d \<Longrightarrow>
   same_sums (rows_in l) (map keyed (day_rows sk ch (acked_in l)))"
proof (induction rule: day_log.induct)
  case log_Nil
  then show ?case by (simp add: rows_in_def day_rows_def List.map_filter_def)
next
  case (log_unstored l d v)
  moreover have "rows_in [Settled d v] = []" by (simp add: rows_in_def)
  ultimately show ?case by (cases v) (simp_all add: day_rows_unstored)
next
  case (log_quiet l es)
  then show ?case by simp
next
  case (log_statement l gs rows vals es r)
  let ?e = "Executed (upsert_of vals) r # es @ map (\<lambda>d. Settled d (verdict_of r)) gs"
  have IH: "same_sums (rows_in l) (map keyed (day_rows sk ch (acked_in l)))"
    using log_statement.IH log_statement.prems by simp
  have "same_sums (rows_in ?e) (map keyed (day_rows sk ch (acked_in ?e)))"
  proof (cases r)
    case (Inl e)
    with log_statement.hyps(5) show ?thesis
      by (simp add: rows_in_def verdict_of_def day_rows_def List.map_filter_def)
  next
    case (Inr u)
    then have acked: "acked_in ?e = gs" using log_statement.hyps(5) by (simp add: verdict_of_def)
    have rows: "day_rows sk ch gs = rows" by (rule day_rows_all [OF log_statement.hyps(3)])
    have "length rows = length gs" using log_statement.hyps(3) by (metis length_map)
    then have len: "length rows \<le> 65535" using log_statement.hyps(2) log_statement.prems(1) by simp
    have "small_totals (dr_totals x)" if "x \<in> set rows" for x
    proof -
      from that have "Ret (Some x) \<in> set (map (day_row sk ch) gs)" unfolding log_statement.hyps(3) by simp
      then obtain d where "d \<in> set gs" "day_row sk ch d = Ret (Some x)" by auto
      moreover have "set gs \<subseteq> set (acked_in (l @ ?e))" using acked by simp
      ultimately show ?thesis using log_statement.prems(2) unfolding day_small_def by blast
    qed
    then have "same_sums (map keyed vals) (map keyed rows)"
      using sums_int_total [OF log_statement.hyps(4) len] sums_keys [OF log_statement.hyps(4)]
      by (simp add: same_sums_def del: split_paired_All)
    moreover have "rows_in ?e = map keyed vals"
      using Inr log_statement.hyps(5) by (simp add: rows_in_def)
    ultimately show ?thesis using acked rows by simp
  qed
  then show ?case using same_sums_append [OF IH] by simp
qed

section \<open>The database\<close>

text \<open>
  A database that does what \<open>apply_upsert\<close> says when a statement succeeds and keeps the table when it
  fails; the calls to the broker and to Telegram keep it too.
\<close>

definition daily_database :: "'w pg_sink \<Rightarrow> ('w \<Rightarrow> daily_table) \<Rightarrow> bool" where
  "daily_database sk tbl \<longleftrightarrow>
     (\<forall>w q w'. execute sk w q = (w', Inr ()) \<longrightarrow> apply_upsert q (tbl w) = Some (tbl w')) \<and>
     (\<forall>w q w' e. execute sk w q = (w', Inl e) \<longrightarrow> tbl w' = tbl w) \<and>
     (\<forall>w q. tbl (fst (setup_call sk w q)) = tbl w) \<and>
     (\<forall>w d v. tbl (settle sk w d v) = tbl w) \<and>
     (\<forall>w u b. tbl (fst (post_json sk w u b)) = tbl w)"

lemma database_log:
  assumes db: "daily_database sk tbl"
  shows "sink_keeps (traced_sink sk) (\<lambda>wl. tbl (fst wl) = after_rows T (rows_in (snd wl)))"
proof -
  have ex: "tbl w' = after_rows T (rows_in (l @ [Executed q r]))"
    if "execute sk w q = (w', r)" and T: "tbl w = after_rows T (rows_in l)" for w q w' r l
  proof (cases r)
    case (Inl e)
    with that db have "tbl w' = tbl w" unfolding daily_database_def by blast
    with T Inl show ?thesis by (simp add: rows_in_def)
  next
    case (Inr u)
    then have "r = Inr ()" by simp
    with that(1) db have "apply_upsert q (tbl w) = Some (tbl w')"
      unfolding daily_database_def by blast
    then have "tbl w' = after_rows (tbl w) (unnest q)"
      unfolding apply_upsert_def by (rule upsert_rows_after)
    with T Inr show ?thesis by (simp add: rows_in_def after_rows_append)
  qed
  have settled: "rows_in [Settled d v] = []" "rows_in [Posted u b] = []" for d v u b
    by (simp_all add: rows_in_def)
  have "tbl (fst (setup_call sk w q)) = tbl w" "tbl (settle sk w d v) = tbl w"
    "tbl (fst (post_json sk w u b)) = tbl w" for w q d v u b
    using db unfolding daily_database_def by blast+
  then show ?thesis
    unfolding sink_keeps_def
    by (auto simp: traced_sink_def settled ex split: prod.split) (metis fst_conv)+
qed

end
