(* ===== verification/Program_Life.thy ===== *)
theory Program_Life
  imports Programs Daily_Refinement
begin

text \<open>
  The consumers over their restarts: what a run of any length with any ends keeps, is kept by the
  program; and a last run that nothing disturbs settles what all runs before it have left, when the
  broker delivers that again.
\<close>

section \<open>What a program has stored\<close>

lemma mysql_main_stores:
  assumes "mysql_main (traced_sink sk) open_log pool vs (w, []) sessions = ((w', l), r)"
  shows "inserted_rows (stored_in l) = sum_list (map (row_weight sk) (acked_in l)) \<and>
    mset (settled_in l) \<subseteq># mset (concat (map (\<lambda>x. arrivals (snd x)) sessions))"
proof (cases rule: mysql_main_cases [of vs "traced_sink sk" open_log pool "(w, [])" sessions])
  case (service cfg)
  let ?run = "mysql_session (traced_sink sk) cfg"
  have l: "l = snd (fst (supervise ?run (w, []) sessions))"
    using assms service(2) by (metis fst_conv fst_map_prod id_apply snd_conv)
  have "mysql_balanced sk (snd (fst (supervise ?run (w, []) sessions)))"
    by (rule supervise_invariant)
      (simp_all add: mysql_session_def mysql_run_stores, simp add: mysql_balanced_def inserted_rows_def)
  moreover have "mset (settled_in (snd (fst (supervise ?run (w, []) sessions)))) \<subseteq>#
      mset (concat (map (\<lambda>x. arrivals (snd x)) sessions))"
    using supervise_received [where settled = "\<lambda>wl. settled_in (snd wl)", of ?run "(w, [])" sessions]
    by (simp add: mysql_session_def mysql_run_received)
  ultimately show ?thesis by (simp add: l mysql_balanced_def)
qed (use assms in \<open>simp add: inserted_rows_def\<close>)

lemma acked_settled: "set (acked_in l) \<subseteq> set (settled_in l)"
  by (induction l rule: acked_in.induct) auto

lemma pg_main_refines:
  assumes db: "daily_database sk tbl"
    and run: "pg_main (traced_sink sk) ch open_log pool vs (w, []) sessions = ((w', l), r)"
    and size: "\<forall>cfg. from_env vs = Ret cfg \<longrightarrow> pgsql_batch_size cfg \<le> 65535"
    and small: "\<forall>x \<in> set sessions. \<forall>d \<in> set (arrivals (snd x)). day_small sk ch d"
  shows "tbl w' = after_rows (tbl w) (map keyed (day_rows sk ch (acked_in l)))"
proof (cases rule: pg_main_cases [of vs "traced_sink sk" ch open_log pool "(w, [])" sessions])
  case (service cfg)
  let ?run = "pg_session (traced_sink sk) ch cfg" and ?N = "max 1 (pgsql_batch_size cfg)"
  have wl: "(w', l) = fst (supervise ?run (w, []) sessions)"
    using run service(2) by (metis fst_conv fst_map_prod id_apply)
  have "tbl (fst (fst (supervise ?run (w, []) sessions))) =
      after_rows (tbl w) (rows_in (snd (fst (supervise ?run (w, []) sessions))))"
    using pg_run_keeps [OF database_log [OF db, of "tbl w"]]
    by (intro supervise_invariant [where P = "\<lambda>wl. tbl (fst wl) = after_rows (tbl w) (rows_in (snd wl))"])
      (simp_all add: pg_session_def, simp add: rows_in_def after_rows_def)
  then have tbl: "tbl w' = after_rows (tbl w) (rows_in l)" unfolding wl [symmetric] by simp
  have "day_log sk ch ?N (snd (fst (supervise ?run (w, []) sessions)))"
    by (rule supervise_invariant) (simp_all only: pg_session_def pg_run_log, simp)
  then have log: "day_log sk ch ?N l" unfolding wl [symmetric] by simp
  have "mset (settled_in (snd (fst (supervise ?run (w, []) sessions)))) \<subseteq>#
      mset (concat (map (\<lambda>x. arrivals (snd x)) sessions))"
    using supervise_received [where settled = "\<lambda>wl. settled_in (snd wl)", of ?run "(w, [])" sessions]
    by (simp add: pg_session_def pg_run_received)
  then have "set (settled_in l) \<subseteq> (\<Union>x \<in> set sessions. set (arrivals (snd x)))"
    unfolding wl [symmetric] by (auto dest!: set_mset_mono)
  then have "\<forall>d \<in> set (acked_in l). day_small sk ch d" using acked_settled small by blast
  moreover have "?N \<le> 65535" using size service(1) by simp
  ultimately show ?thesis
    unfolding tbl by (intro same_sums_after day_log_rows [OF log])
qed (use run in \<open>simp add: day_rows_def List.map_filter_def after_rows_def\<close>)

text \<open>Only what was delivered is acknowledged.\<close>

lemma pg_main_settled:
  assumes "pg_main (traced_sink sk) ch open_log pool vs (w, []) sessions = ((w', l), r)"
  shows "set (settled_in l) \<subseteq> (\<Union>x \<in> set sessions. set (arrivals (snd x)))"
proof (cases rule: pg_main_cases [of vs "traced_sink sk" ch open_log pool "(w, [])" sessions])
  case (service cfg)
  let ?run = "pg_session (traced_sink sk) ch cfg"
  have l: "l = snd (fst (supervise ?run (w, []) sessions))"
    using assms service(2) by (metis fst_conv fst_map_prod id_apply snd_conv)
  have "mset (settled_in l) \<subseteq># mset (concat (map (\<lambda>x. arrivals (snd x)) sessions))"
    using supervise_received [where settled = "\<lambda>wl. settled_in (snd wl)", of ?run "(w, [])" sessions]
    by (simp add: l pg_session_def pg_run_received)
  then show ?thesis by (auto dest!: set_mset_mono)
qed (use assms in simp)

lemma pg_main_acked:
  assumes "pg_main (traced_sink sk) ch open_log pool vs (w, []) sessions = ((w', l), r)"
  shows "set (acked_in l) \<subseteq> (\<Union>x \<in> set sessions. set (arrivals (snd x)))"
  using pg_main_settled [OF assms] acked_settled [of l] by blast

lemma mysql_main_acked:
  assumes "mysql_main (traced_sink sk) open_log pool vs (w, []) sessions = ((w', l), r)"
  shows "set (acked_in l) \<subseteq> (\<Union>x \<in> set sessions. set (arrivals (snd x)))"
  using mysql_main_stores [OF assms] acked_settled [of l] by (fastforce dest!: set_mset_mono)

section \<open>Redelivery\<close>

text \<open>
  Bodies, for a body that is delivered again comes under a new tag. \<open>owed\<close> is what some runs have
  received and not settled.
\<close>

definition bodies :: "delivery list \<Rightarrow> bytes multiset" where
  "bodies ds = image_mset dl_data (mset ds)"

definition received :: "session list \<Rightarrow> delivery list" where
  "received xs = concat (map (\<lambda>x. arrivals (snd x)) xs)"

definition owed :: "session list \<Rightarrow> delivery list \<Rightarrow> bytes multiset" where
  "owed xs settled = image_mset dl_data (mset (received xs) - mset settled)"

lemma supervise_append:
  assumes "\<And>w x. x \<in> set xs \<Longrightarrow> \<exists>w' e. run w x = (w', Inl e) \<and> e \<noteq> Run_Panicked"
  shows "supervise run w (xs @ ys) = supervise run (fst (supervise run w xs)) ys"
  using assms
proof (induction xs arbitrary: w)
  case (Cons x xs)
  from Cons.prems [of x w] obtain w' e where "run w x = (w', Inl e)" "e \<noteq> Run_Panicked" by auto
  with Cons show ?case by (cases e) simp_all
qed simp

lemma supervise_recovers:
  assumes over: "\<And>w x. x \<in> set xs \<Longrightarrow> \<exists>w' e. run w x = (w', Inl e) \<and> e \<noteq> Run_Panicked"
    and gets: "\<And>w x. mset (settled (fst (run w x))) \<subseteq># mset (settled w) + mset (arrivals (snd x))"
    and last: "\<And>w. \<exists>w' s. run w x = (w', Inr s) \<and> Q s \<and> mset (settled w') = mset (settled w) + mset (arrivals (snd x))"
    and start: "settled w0 = []"
    and again: "owed xs (settled (fst (supervise run w0 xs))) \<subseteq># bodies (arrivals (snd x))"
  shows "\<exists>w' s. supervise run w0 (xs @ [x]) = (w', Running s) \<and> Q s \<and>
    mset (settled w') = mset (settled (fst (supervise run w0 xs))) + mset (arrivals (snd x)) \<and>
    bodies (received xs) \<subseteq># bodies (settled w')"
proof -
  let ?w1 = "fst (supervise run w0 xs)"
  obtain w' s where run: "run ?w1 x = (w', Inr s)" "Q s"
    "mset (settled w') = mset (settled ?w1) + mset (arrivals (snd x))" using last by blast
  have "supervise run w0 (xs @ [x]) = (w', Running s)"
    using supervise_append [of xs run w0 "[x]", OF over] run(1) by simp
  moreover have "mset (settled ?w1) \<subseteq># mset (received xs)"
    using supervise_received [where run = run and settled = settled and w = w0 and xs = xs, OF gets] start
    by (simp add: received_def)
  then have "bodies (received xs) = bodies (settled ?w1) + owed xs (settled ?w1)"
    unfolding bodies_def owed_def image_mset_union [symmetric] by (simp add: subset_mset.add_diff_inverse)
  then have "bodies (received xs) \<subseteq># bodies (settled w')"
    using again run(3) by (simp add: bodies_def)
  ultimately show ?thesis using run(2,3) by blast
qed

lemma run_setup_lifted:
  "run_setup sk w qs = (w1, r) \<Longrightarrow> run_setup (traced_sink sk) (w, l) qs = ((w1, l), r)"
proof (induction qs arbitrary: w)
  case (Cons q qs)
  then show ?case by (auto simp: traced_sink_def split: prod.splits sum.splits)
qed simp

text \<open>A session whose channel ends, and one that nothing disturbs before its last tick.\<close>

lemma run_consumer_over:
  assumes "0 < secs" and "\<And>w. \<exists>w' e. consume step w s0 evs = (w', Inl e) \<and> e \<noteq> Run_Panicked"
  shows "\<exists>w' e. run_consumer sk qs secs step s0 w evs = (w', Inl e) \<and> e \<noteq> Run_Panicked"
proof -
  obtain w1 a where st: "run_setup sk w qs = (w1, a)" by force
  from assms(2) [of w1] assms(1) st show ?thesis by (cases a) (auto simp: run_consumer_def)
qed

definition reachable_services :: "('w, 'k, 'q) sink \<Rightarrow> bool" where
  "reachable_services sk \<longleftrightarrow> (\<forall>w q. \<exists>w'. setup_call sk w q = (w', Inr ()))"

lemma run_setup_reachable: "reachable_services sk \<Longrightarrow> \<exists>w1. run_setup sk w qs = (w1, Inr ())"
proof (induction qs arbitrary: w)
  case (Cons q qs)
  then obtain w1 where "setup_call sk w q = (w1, Inr ())" unfolding reachable_services_def by blast
  with Cons show ?case by simp
qed simp

lemma run_consumer_reachable:
  assumes "0 < secs" and "reachable_services sk"
  shows "\<exists>w1. run_consumer (traced_sink sk) qs secs step s0 wl evs = consume step (w1, snd wl) s0 evs"
proof -
  obtain w l where wl: "wl = (w, l)" by force
  from run_setup_reachable [OF assms(2), of w qs] obtain w1 where "run_setup sk w qs = (w1, Inr ())" by blast
  from run_setup_lifted [OF this, of l] assms(1) wl show ?thesis
    by (intro exI [of _ w1]) (simp add: run_consumer_def)
qed

lemma mysql_session_over:
  assumes "0 < mysql_batch_interval_secs cfg" and "\<forall>d \<in> set (arrivals (snd x)). mysql_fine sk d"
    and "ev \<in> set (snd x)" and "ends ev"
  shows "\<exists>w' e. mysql_session (traced_sink sk) cfg w x = (w', Inl e) \<and> e \<noteq> Run_Panicked"
  unfolding mysql_session_def mysql_run_def
  by (rule run_consumer_over [OF assms(1)]) (rule my_live.run_over [OF _ assms(2-4)], simp)

lemma pg_session_over:
  assumes "0 < pgsql_batch_interval_secs cfg" and "\<forall>d \<in> set (arrivals (snd x)). pg_fine sk ch d"
    and "ev \<in> set (snd x)" and "ends ev"
  shows "\<exists>w' e. pg_session (traced_sink sk) ch cfg w x = (w', Inl e) \<and> e \<noteq> Run_Panicked"
  unfolding pg_session_def pg_run_def
  by (rule run_consumer_over [OF assms(1)]) (rule pg_live.run_over [OF _ assms(2-4)], simp)

lemma arrivals_tick [simp]: "arrivals (evs @ [Tick]) = arrivals evs"
  by (induction evs rule: arrivals.induct) simp_all

lemma mysql_session_calm:
  assumes "0 < mysql_batch_interval_secs cfg" and "reachable_services sk"
    and "\<forall>ev \<in> set evs. calm (mysql_fine sk) ev"
  shows "\<exists>w' s. mysql_session (traced_sink sk) cfg w (nanos, evs @ [Tick]) = (w', Inr s) \<and>
    my_deliveries s = [] \<and> mset (settled_in (snd w')) = mset (settled_in (snd w)) + mset (arrivals evs)"
proof -
  obtain w1 where "mysql_session (traced_sink sk) cfg w (nanos, evs @ [Tick]) =
      consume (mysql_step (traced_sink sk) (config_notifier cfg) (mysql_batch_size cfg)) (w1, snd w)
        mysql_state0 (evs @ [Tick])"
    using run_consumer_reachable [OF assms(1,2)] unfolding mysql_session_def mysql_run_def by fastforce
  with my_live.run_tick [OF _ assms(3), of mysql_state0 "config_notifier cfg" "mysql_batch_size cfg" "(w1, snd w)"]
  show ?thesis by auto
qed

lemma pg_session_calm:
  assumes "0 < pgsql_batch_interval_secs cfg" and "reachable_services sk"
    and "\<forall>ev \<in> set evs. calm (pg_fine sk ch) ev"
  shows "\<exists>w' s. pg_session (traced_sink sk) ch cfg w (nanos, evs @ [Tick]) = (w', Inr s) \<and>
    pg_deliveries s = [] \<and> mset (settled_in (snd w')) = mset (settled_in (snd w)) + mset (arrivals evs)"
proof -
  obtain w1 where "pg_session (traced_sink sk) ch cfg w (nanos, evs @ [Tick]) =
      consume (pg_step (traced_sink sk) ch (config_notifier cfg) (pgsql_batch_size cfg)) (w1, snd w)
        pg_state0 (evs @ [Tick])"
    using run_consumer_reachable [OF assms(1,2)] unfolding pg_session_def pg_run_def by fastforce
  with pg_live.run_tick [OF _ assms(3), of pg_state0 "config_notifier cfg" "pgsql_batch_size cfg" "(w1, snd w)"]
  show ?thesis by auto
qed

text \<open>
  After sessions whose channels ended, a session that the broker gives again what they left unsettled,
  and that nothing disturbs before its last tick, leaves nothing unsettled.
\<close>

lemma mysql_main_recovers:
  assumes before: "mysql_main (traced_sink sk) open_log pool vs (w, []) xs = ((w0, l0), Service r0)"
    and secs: "\<forall>cfg. from_env vs = Ret cfg \<longrightarrow> 0 < mysql_batch_interval_secs cfg"
    and broken: "\<forall>x \<in> set xs. (\<exists>ev \<in> set (snd x). ends ev) \<and> (\<forall>d \<in> set (arrivals (snd x)). mysql_fine sk d)"
    and calm: "\<forall>ev \<in> set evs. calm (mysql_fine sk) ev" and up: "reachable_services sk"
    and again: "owed xs (settled_in l0) \<subseteq># bodies (arrivals evs)"
  shows "\<exists>w' l s. mysql_main (traced_sink sk) open_log pool vs (w, []) (xs @ [(nanos, evs @ [Tick])]) =
      ((w', l), Service (Running s)) \<and> my_deliveries s = [] \<and>
    mset (settled_in l) = mset (settled_in l0) + mset (arrivals evs) \<and>
    bodies (received xs) \<subseteq># bodies (settled_in l)"
proof -
  from before obtain cfg where cfg: "from_env vs = Ret cfg"
    and main: "\<And>ys. mysql_main (traced_sink sk) open_log pool vs (w, []) ys =
      map_prod id Service (supervise (mysql_session (traced_sink sk) cfg) (w, []) ys)"
    using mysql_main_service [OF before] by blast
  have secs: "0 < mysql_batch_interval_secs cfg" using secs cfg by blast
  let ?run = "mysql_session (traced_sink sk) cfg"
  have l0: "fst (supervise ?run (w, []) xs) = (w0, l0)"
    using before unfolding main by (metis fst_conv fst_map_prod id_apply)
  have "\<exists>w' s. supervise ?run (w, []) (xs @ [(nanos, evs @ [Tick])]) = (w', Running s) \<and> my_deliveries s = [] \<and>
      mset (settled_in (snd w')) = mset (settled_in (snd (fst (supervise ?run (w, []) xs)))) +
        mset (arrivals (snd (nanos, evs @ [Tick]))) \<and>
      bodies (received xs) \<subseteq># bodies (settled_in (snd w'))"
  proof (rule supervise_recovers [where settled = "\<lambda>wl. settled_in (snd wl)"])
    show "\<exists>w' e. ?run w x = (w', Inl e) \<and> e \<noteq> Run_Panicked" if "x \<in> set xs" for w x
      using broken that mysql_session_over [OF secs] by blast
    show "mset (settled_in (snd (fst (?run w x)))) \<subseteq># mset (settled_in (snd w)) + mset (arrivals (snd x))" for w x
      unfolding mysql_session_def by (rule mysql_run_received)
    show "\<exists>w' s. ?run w (nanos, evs @ [Tick]) = (w', Inr s) \<and> my_deliveries s = [] \<and>
        mset (settled_in (snd w')) = mset (settled_in (snd w)) + mset (arrivals (snd (nanos, evs @ [Tick])))" for w
      using mysql_session_calm [OF secs up calm, of w nanos] by simp
  qed (use again l0 in simp_all)
  then show ?thesis unfolding main using l0 by auto
qed

lemma pg_main_recovers:
  assumes before: "pg_main (traced_sink sk) ch open_log pool vs (w, []) xs = ((w0, l0), Service r0)"
    and secs: "\<forall>cfg. from_env vs = Ret cfg \<longrightarrow> 0 < pgsql_batch_interval_secs cfg"
    and broken: "\<forall>x \<in> set xs. (\<exists>ev \<in> set (snd x). ends ev) \<and> (\<forall>d \<in> set (arrivals (snd x)). pg_fine sk ch d)"
    and calm: "\<forall>ev \<in> set evs. calm (pg_fine sk ch) ev" and up: "reachable_services sk"
    and again: "owed xs (settled_in l0) \<subseteq># bodies (arrivals evs)"
  shows "\<exists>w' l s. pg_main (traced_sink sk) ch open_log pool vs (w, []) (xs @ [(nanos, evs @ [Tick])]) =
      ((w', l), Service (Running s)) \<and> pg_deliveries s = [] \<and>
    mset (settled_in l) = mset (settled_in l0) + mset (arrivals evs) \<and>
    bodies (received xs) \<subseteq># bodies (settled_in l)"
proof -
  from before obtain cfg where cfg: "from_env vs = Ret cfg"
    and main: "\<And>ys. pg_main (traced_sink sk) ch open_log pool vs (w, []) ys =
      map_prod id Service (supervise (pg_session (traced_sink sk) ch cfg) (w, []) ys)"
    using pg_main_service [OF before] by blast
  have secs: "0 < pgsql_batch_interval_secs cfg" using secs cfg by blast
  let ?run = "pg_session (traced_sink sk) ch cfg"
  have l0: "fst (supervise ?run (w, []) xs) = (w0, l0)"
    using before unfolding main by (metis fst_conv fst_map_prod id_apply)
  have "\<exists>w' s. supervise ?run (w, []) (xs @ [(nanos, evs @ [Tick])]) = (w', Running s) \<and> pg_deliveries s = [] \<and>
      mset (settled_in (snd w')) = mset (settled_in (snd (fst (supervise ?run (w, []) xs)))) +
        mset (arrivals (snd (nanos, evs @ [Tick]))) \<and>
      bodies (received xs) \<subseteq># bodies (settled_in (snd w'))"
  proof (rule supervise_recovers [where settled = "\<lambda>wl. settled_in (snd wl)"])
    show "\<exists>w' e. ?run w x = (w', Inl e) \<and> e \<noteq> Run_Panicked" if "x \<in> set xs" for w x
      using broken that pg_session_over [OF secs] by blast
    show "mset (settled_in (snd (fst (?run w x)))) \<subseteq># mset (settled_in (snd w)) + mset (arrivals (snd x))" for w x
      unfolding pg_session_def by (rule pg_run_received)
    show "\<exists>w' s. ?run w (nanos, evs @ [Tick]) = (w', Inr s) \<and> pg_deliveries s = [] \<and>
        mset (settled_in (snd w')) = mset (settled_in (snd w)) + mset (arrivals (snd (nanos, evs @ [Tick])))" for w
      using pg_session_calm [OF secs up calm, of w nanos] by simp
  qed (use again l0 in simp_all)
  then show ?thesis unfolding main using l0 by auto
qed

section \<open>Verdicts over restarts\<close>

lemma mysql_main_justified:
  assumes "mysql_main (traced_sink sk) open_log pool vs (w, []) sessions = ((w', l), r)"
  shows "justified (carries_row sk) (settled_unstored sk) [] l"
proof (cases rule: mysql_main_cases [of vs "traced_sink sk" open_log pool "(w, [])" sessions])
  case (service cfg)
  have "justified (carries_row sk) (settled_unstored sk) []
      (snd (fst (supervise (mysql_session (traced_sink sk) cfg) (w, []) sessions)))"
    by (rule supervise_invariant) (simp_all add: mysql_session_def mysql_run_justified)
  moreover have "l = snd (fst (supervise (mysql_session (traced_sink sk) cfg) (w, []) sessions))"
    using assms service(2) by (metis fst_conv fst_map_prod id_apply snd_conv)
  ultimately show ?thesis by simp
qed (use assms in simp)

lemma pg_main_justified:
  assumes "pg_main (traced_sink sk) ch open_log pool vs (w, []) sessions = ((w', l), r)"
  shows "justified (carries_day sk ch) (day_unstored sk ch) [] l"
proof (cases rule: pg_main_cases [of vs "traced_sink sk" ch open_log pool "(w, [])" sessions])
  case (service cfg)
  have "justified (carries_day sk ch) (day_unstored sk ch) []
      (snd (fst (supervise (pg_session (traced_sink sk) ch cfg) (w, []) sessions)))"
    by (rule supervise_invariant) (simp_all add: pg_session_def pg_run_justified)
  moreover have "l = snd (fst (supervise (pg_session (traced_sink sk) ch cfg) (w, []) sessions))"
    using assms service(2) by (metis fst_conv fst_map_prod id_apply snd_conv)
  ultimately show ?thesis by simp
qed (use assms in simp)

text \<open>Where no statement failed and nothing was dropped for its data, all that is settled is acknowledged.\<close>

lemma justified_acked:
  assumes "justified carries direct seen l" and "\<forall>(q, v) \<in> set seen. v = Ack"
    and "\<forall>q e. Executed q (Inl e) \<notin> set l" and "\<forall>d \<in> set (settled_in l). \<not> direct d Nack_Drop"
  shows "acked_in l = settled_in l"
  using assms
proof (induction l arbitrary: seen)
  case (Cons c l)
  show ?case
  proof (cases c)
    case (Executed q r)
    then have "r = Inr ()" using Cons.prems(3) by (cases r) auto
    with Executed Cons show ?thesis by (simp add: verdict_of_def)
  next
    case (Settled d v)
    with Cons.prems have "v = Ack" by (cases v) fastforce+
    moreover have "acked_in l = settled_in l" by (rule Cons.IH [of seen]) (use Settled Cons.prems in auto)
    ultimately show ?thesis using Settled by simp
  next
    case (Posted u b)
    with Cons show ?thesis by auto
  qed
qed simp

end
