(* ===== verification/Program_Properties.thy ===== *)
theory Program_Properties
  imports Program_Life Service_Properties Card_Properties
begin

text \<open>
  The properties of the programs as a whole: the two consumers over all their restarts and while
  nothing disturbs them, what a receiver that serves has done before, its listener over restarts, and
  the log files.
\<close>

section \<open>The consumers over their restarts\<close>

text \<open>
  C6: over its whole life, through any number of restarts, the MySQL consumer's program gives its
  tables exactly the rows of the deliveries it acknowledged, each under the statement of its own
  table (a message with no usable table key has no row), and it settles nothing it has not received,
  and nothing more often than received.
\<close>

theorem mysql_program_stores:
  assumes "mysql_main (traced_sink sk) open_log pool vs (w, []) sessions = ((w', l), r)"
  shows "inserted_rows (stored_in l) = sum_list (map (row_weight sk) (acked_in l)) \<and>
    mset (settled_in l) \<subseteq># mset (concat (map (\<lambda>x. arrivals (snd x)) sessions))"
  by (rule mysql_main_stores [OF assms])

text \<open>One session of the two deliveries and a tick, in the configuration with only the key set.\<close>

abbreviation demo_session :: session where
  "demo_session \<equiv> (0, map Incoming demo_deliveries @ [Tick])"

text \<open>What a concrete run of the MySQL program unfolds to.\<close>

lemmas mysql_demo_defs =
  mysql_main_def mysql_session_def demo_deliveries_def mysql_run_def run_consumer_def
  setup_requests_def traced_sink_def mysql_step_def mysql_flush_full_def mysql_flush_def
  mysql_groups_def hash_order_def flush_group_def mysql_state0_def

lemma demo_batches:
  "\<exists>cfg. from_env demo_vars = Ret cfg \<and> mysql_batch_size cfg = 100 \<and> mysql_batch_interval_secs cfg = 1"
  by (simp add: from_env_def no_allowed_ips demo_vars_def var_or_def var_or_else_def unwrap_or_def
      demo_numbers api_key_of_def postgres_url_of_def) (simp add: lit_def)

theorem mysql_program_stores_witness:
  "\<exists>w l r s. mysql_main (traced_sink demo_sink) (\<lambda>p. Inr ()) (\<lambda>u n. Inr ()) demo_vars ((), [])
       [demo_session] = ((w, l), Service s) \<and>
     inserted_rows (stored_in l) = {#(insert_sql (lit ''kicc_b1234567890''), row_binds r)#}"
proof -
  obtain cfg where cfg: "from_env demo_vars = Ret cfg" "mysql_batch_size cfg = 100"
    "mysql_batch_interval_secs cfg = 1" using demo_batches by blast
  obtain q where run: "mysql_main (traced_sink demo_sink) (\<lambda>p. Inr ()) (\<lambda>u n. Inr ()) demo_vars ((), [])
      [demo_session] = (((), [Settled (demo_deliveries ! 1) Nack_Drop, Executed q (Inr ()),
        Settled (demo_deliveries ! 0) Ack]), Service (Running mysql_state0))"
    using demo_kicc cfg
    by (auto simp: mysql_demo_defs split: prod.splits)
  obtain r where "row_of (demo_sink :: unit mysql_sink) (demo_deliveries ! 0) = Some r"
    "table r = lit ''kicc_b1234567890''"
    using demo_kicc by (auto simp: row_of_def demo_deliveries_def)
  then have "row_weight (demo_sink :: unit mysql_sink) (demo_deliveries ! 0) =
      {#(insert_sql (lit ''kicc_b1234567890''), row_binds r)#}"
    by (simp add: row_weight_def)
  then show ?thesis using mysql_program_stores [OF run] run by auto
qed

text \<open>
  C1: the PostgreSQL consumer's program refines a table of sums. Over a database that executes the
  statement as its SQL says, whatever happens in its life (statements that fail, channels that close,
  restarts, a panic), the table it leaves is the table it found with the rows of the deliveries it
  acknowledged added one by one as integers; nothing wraps, for batches of up to 65535 messages whose
  amounts fit a telegram's field.
\<close>

theorem pg_program_refines:
  assumes db: "daily_database sk tbl"
    and run: "pg_main (traced_sink sk) ch open_log pool vs (w, []) sessions = ((w', l), r)"
    and size: "\<forall>cfg. from_env vs = Ret cfg \<longrightarrow> pgsql_batch_size cfg \<le> 65535"
    and small: "\<forall>x \<in> set sessions. \<forall>d \<in> set (arrivals (snd x)). day_small sk ch d"
  shows "tbl w' = after_rows (tbl w) (map keyed (day_rows sk ch (acked_in l)))"
  by (rule pg_main_refines [OF assms])

text \<open>A database of that kind: the table is the world.\<close>

definition demo_database :: "daily_table pg_sink" where
  "demo_database =
     \<lparr> setup_call = (\<lambda>w q. (w, Inr ())),
       from_slice = from_slice (demo_sink :: unit pg_sink),
       hash_of = (\<lambda>w k. 0),
       execute = (\<lambda>w q. case apply_upsert q w of Some T \<Rightarrow> (T, Inr ()) | None \<Rightarrow> (w, Inl (Db_Error None))),
       settle = (\<lambda>w d v. w),
       post_json = (\<lambda>w u b. (w, Inr ())) \<rparr>"

lemma demo_database_ok: "daily_database demo_database (\<lambda>T. T)"
  by (auto simp: daily_database_def demo_database_def split: option.splits)

definition demo_pg_vars :: vars where
  "demo_pg_vars = demo_vars(''POSTGRES_URL'' \<mapsto> lit ''postgres://db/card'')"

lemma demo_pg_batches:
  "\<exists>cfg. from_env demo_pg_vars = Ret cfg \<and> pgsql_batch_size cfg = 100 \<and> pgsql_batch_interval_secs cfg = 1 \<and>
     postgres_url cfg = Some (lit ''postgres://db/card'')"
  by (simp add: from_env_def no_allowed_ips demo_pg_vars_def demo_vars_def var_or_def var_or_else_def
      unwrap_or_def demo_numbers api_key_of_def postgres_url_of_def) (simp add: lit_def)

definition demo_key :: agg_key where
  "demo_key = (word_of_int (86400 * 19892 + 3600 * 14 - 9 * 3600), lit ''1234567890'', lit ''M0001'',
     lit ''T123456'')"

lemma demo_day_row:
  "day_row demo_database demo_chrono (demo_deliveries ! 0) = Ret (Some
     \<lparr> ts_unix = fst demo_key, dr_bid = lit ''1234567890'', dr_mid = lit ''M0001'',
       dr_psn = lit ''T123456'', dr_totals = Totals 0 0 0 0 0 0 50000 1 \<rparr>)"
  "day_row demo_database demo_chrono (demo_deliveries ! 1) = Ret None"
  by (simp_all add: day_row_def demo_database_def demo_deliveries_def demo_daily demo_key_def)

lemma demo_apply:
  "\<exists>T. apply_upsert (upsert_of [\<lparr> ts_unix = t, dr_bid = b, dr_mid = m, dr_psn = p,
     dr_totals = Totals 0 0 0 0 0 0 50000 1 \<rparr>]) Map.empty = Some T"
  by (simp add: apply_upsert_def upsert_rows_step added_def in_range_def key_of_def)

lemma demo_pg_main:
  assumes "from_env vs = Ret cfg" and "pgsql_batch_size cfg = 100"
    and "pgsql_batch_interval_secs cfg = 1" and "postgres_url cfg = Some u"
  shows "\<exists>T q. pg_main (traced_sink demo_database) demo_chrono (\<lambda>p. Inr ()) (\<lambda>u n. Inr ()) vs
      (Map.empty, []) [demo_session] = ((T, [Settled (demo_deliveries ! 1) Nack_Drop,
        Executed q (Inr ()), Settled (demo_deliveries ! 0) Ack]), Service (Running pg_state0))"
proof -
  obtain T where T: "apply_upsert (upsert_of [\<lparr> ts_unix = word_of_int (86400 * 19892 + 3600 * 14 - 9 * 3600),
      dr_bid = lit ''1234567890'', dr_mid = lit ''M0001'', dr_psn = lit ''T123456'',
      dr_totals = Totals 0 0 0 0 0 0 50000 1 \<rparr>]) Map.empty = Some T" using demo_apply by blast
  have vals: "agg_values sk w (agg_add [] row) = [row]" for sk w row
    by (simp add: agg_values_def agg_add_def hash_order_def List.map_filter_def)
  have "pg_session (traced_sink demo_database) demo_chrono cfg (Map.empty, []) demo_session =
      ((T, [Settled (demo_deliveries ! 1) Nack_Drop,
        Executed (upsert_of [\<lparr> ts_unix = word_of_int (86400 * 19892 + 3600 * 14 - 9 * 3600),
      dr_bid = lit ''1234567890'', dr_mid = lit ''M0001'', dr_psn = lit ''T123456'',
      dr_totals = Totals 0 0 0 0 0 0 50000 1 \<rparr>]) (Inr ()), Settled (demo_deliveries ! 0) Ack]),
       Inr pg_state0)"
    using assms(2,3) T
    by (simp add: pg_session_def demo_deliveries_def pg_run_def run_consumer_def setup_requests_def
        traced_sink_def demo_database_def pg_step_def pg_flush_full_def pg_flush_def demo_daily
        pg_state0_def vals)
  then show ?thesis
    using assms(1,4) by (simp add: pg_main_def postgres_consumer_url_def)
qed

theorem pg_program_refines_witness:
  "\<exists>T l s. pg_main (traced_sink demo_database) demo_chrono (\<lambda>p. Inr ()) (\<lambda>u n. Inr ()) demo_pg_vars
       (Map.empty, []) [demo_session] = ((T, l), Service s) \<and> acked_in l = [demo_deliveries ! 0] \<and>
     T (demo_key, 0) = Some (Totals 0 0 0 0 0 0 50000 1)"
proof -
  obtain cfg where cfg: "from_env demo_pg_vars = Ret cfg" "pgsql_batch_size cfg = 100"
    "pgsql_batch_interval_secs cfg = 1" "postgres_url cfg = Some (lit ''postgres://db/card'')"
    using demo_pg_batches by blast
  obtain T q where run: "pg_main (traced_sink demo_database) demo_chrono (\<lambda>p. Inr ()) (\<lambda>u n. Inr ())
      demo_pg_vars (Map.empty, []) [demo_session] = ((T, [Settled (demo_deliveries ! 1) Nack_Drop,
        Executed q (Inr ()), Settled (demo_deliveries ! 0) Ack]), Service (Running pg_state0))"
    using demo_pg_main [OF cfg] by blast
  let ?row = "\<lparr> ts_unix = fst demo_key, dr_bid = lit ''1234567890'', dr_mid = lit ''M0001'',
      dr_psn = lit ''T123456'', dr_totals = Totals 0 0 0 0 0 0 50000 1 \<rparr>"
  have rows: "day_rows demo_database demo_chrono [demo_deliveries ! 0] = [?row]"
    using day_rows_all [of demo_database demo_chrono "[demo_deliveries ! 0]" "[?row]"] demo_day_row by simp
  have "day_small demo_database demo_chrono d" if "d \<in> set demo_deliveries" for d
  proof -
    from that consider "d = demo_deliveries ! 0" | "d = demo_deliveries ! 1"
      by (auto simp: demo_deliveries_def)
    then show ?thesis by cases (simp_all add: day_small_def demo_day_row [unfolded One_nat_def] small_totals_def)
  qed
  moreover have "arrivals (map Incoming demo_deliveries @ [Tick]) = demo_deliveries"
    by (simp add: demo_deliveries_def)
  ultimately have "T = after_rows Map.empty (map keyed [?row])"
    using pg_program_refines [OF demo_database_ok run] cfg(1,2) rows by simp
  then have "T (demo_key, 0) = Some (Totals 0 0 0 0 0 0 50000 1)"
    by (simp add: after_rows_def key_of_def demo_key_def added_def int_key_total_def)
  with run show ?thesis by simp
qed

section \<open>Progress\<close>

text \<open>
  The MySQL consumer settles everything: once it has subscribed, as long as its channel neither
  closes nor fails and no delivery panics the conversion, whatever the batch size and however the
  database answers, the next tick leaves no delivery of those before it unsettled.
\<close>

lemma mysql_settles_all:
  assumes "run_setup sk w (setup_requests url q (lit ''mysql-consumer-'') nanos n) = (w1, Inr ())"
    and "0 < secs" and "\<forall>ev \<in> set evs. calm (mysql_fine sk) ev"
  shows "\<exists>w' l s. mysql_run (traced_sink sk) url q nt n secs nanos (w, []) (evs @ [Tick]) = ((w', l), Inr s) \<and>
    mset (settled_in l) = mset (arrivals evs) \<and> my_deliveries s = []"
proof -
  have "mysql_run (traced_sink sk) url q nt n secs nanos (w, []) (evs @ [Tick]) =
      consume (mysql_step (traced_sink sk) nt n) (w1, []) mysql_state0 (evs @ [Tick])"
    using assms(2) run_setup_lifted [OF assms(1), of "[]"] by (simp add: mysql_run_def run_consumer_def)
  moreover from my_live.run_tick [OF _ assms(3), of mysql_state0 nt n "(w1, [])"]
  obtain wl s where "consume (mysql_step (traced_sink sk) nt n) (w1, []) mysql_state0 (evs @ [Tick]) = (wl, Inr s)"
    "my_deliveries s = []" "mset (settled_in (snd wl)) = mset (arrivals evs)" by auto
  ultimately show ?thesis by (cases wl) auto
qed

lemma demo_mysql_fine: "mysql_fine (demo_sink :: unit mysql_sink) d"
  using demo_kicc by (auto simp: mysql_fine_def split: if_splits)

lemma mysql_settles_all_demo:
  "\<exists>w l s. mysql_run (traced_sink demo_sink) [] [] None 100 1 0 ((), []) (map Incoming demo_deliveries @ [Tick]) =
     ((w, l), Inr s) \<and> mset (settled_in l) = mset demo_deliveries \<and> my_deliveries s = []"
proof -
  have "run_setup (demo_sink :: unit mysql_sink) ()
      (setup_requests [] [] (lit ''mysql-consumer-'') 0 100) = ((), Inr ())"
    by (simp add: setup_requests_def)
  from mysql_settles_all [OF this, of 1 "map Incoming demo_deliveries" None] show ?thesis
    using demo_mysql_fine by (auto simp: demo_deliveries_def)
qed

text \<open>
  The PostgreSQL consumer settles everything: once it has subscribed, as long as its channel
  neither closes nor fails and no delivery panics the conversion, the next tick leaves no delivery of
  those before it unsettled.
\<close>

lemma pg_settles_all:
  assumes "run_setup sk w (setup_requests url q (lit ''postgres-consumer-'') nanos n) = (w1, Inr ())"
    and "0 < secs" and "\<forall>ev \<in> set evs. calm (pg_fine sk ch) ev"
  shows "\<exists>w' l s. pg_run (traced_sink sk) ch url q nt n secs nanos (w, []) (evs @ [Tick]) = ((w', l), Inr s) \<and>
    mset (settled_in l) = mset (arrivals evs) \<and> pg_deliveries s = []"
proof -
  have "pg_run (traced_sink sk) ch url q nt n secs nanos (w, []) (evs @ [Tick]) =
      consume (pg_step (traced_sink sk) ch nt n) (w1, []) pg_state0 (evs @ [Tick])"
    using assms(2) run_setup_lifted [OF assms(1), of "[]"] by (simp add: pg_run_def run_consumer_def)
  moreover from pg_live.run_tick [OF _ assms(3), of pg_state0 nt n "(w1, [])"]
  obtain wl s where "consume (pg_step (traced_sink sk) ch nt n) (w1, []) pg_state0 (evs @ [Tick]) = (wl, Inr s)"
    "pg_deliveries s = []" "mset (settled_in (snd wl)) = mset (arrivals evs)" by auto
  ultimately show ?thesis by (cases wl) auto
qed

lemma demo_pg_fine: "pg_fine (demo_sink :: unit pg_sink) demo_chrono d"
  using demo_daily by (auto simp: pg_fine_def split: if_splits)

lemma pg_settles_all_demo:
  "\<exists>w l s. pg_run (traced_sink demo_sink) demo_chrono [] [] None 100 1 0 ((), [])
       (map Incoming demo_deliveries @ [Tick]) =
     ((w, l), Inr s) \<and> mset (settled_in l) = mset demo_deliveries \<and> pg_deliveries s = []"
proof -
  have "run_setup (demo_sink :: unit pg_sink) ()
      (setup_requests [] [] (lit ''postgres-consumer-'') 0 100) = ((), Inr ())"
    by (simp add: setup_requests_def)
  from pg_settles_all [OF this, of 1 "map Incoming demo_deliveries" demo_chrono None] show ?thesis
    using demo_pg_fine by (auto simp: demo_deliveries_def)
qed










section \<open>The receiver\<close>

text \<open>
  C25: what a receiver that serves HTTP has behind it: a configuration with a key and numbers that fit,
  non-zero rates, an open connection to Redis, and a topology declared in an order the broker
  accepts, in which the exchange it publishes to reaches exactly the configured queues and each
  queue dead-letters to exactly the queue named for it. Any step that fails ends the program first.
\<close>

theorem serving_receiver:
  assumes "receiver_main (traced env) open_log redis_open redis_connect http_bind vs (w, []) =
      ((w', l), Serving cfg st quota nt)"
    and "exchange_name cfg \<noteq> dlq_exchange cfg"
  shows "from_env vs = Ret cfg \<and> config_ok cfg \<and>
    (\<exists>c. redis_open (redis_url cfg) = Inr c \<and> redis_connect c = Inr ()) \<and>
    0 < quota_per_second quota \<and> 0 < quota_burst quota \<and> st_exchange st = exchange_name cfg \<and>
    unat (st_ttl_secs st) = dedup_ttl_secs cfg \<and>
    (\<exists>rs. l = map (\<lambda>q. Amqp_Call q (Inr ())) rs \<and> ordered_requests {} {} rs \<and>
      fanout_targets rs (st_exchange st) = fst ` set (queues_of cfg) \<and>
      (\<forall>q. dead_letter_targets rs q = {d. (q, d) \<in> set (queues_of cfg)}))"
proof -
  have main: "from_env vs = Ret cfg" "\<exists>c. redis_open (redis_url cfg) = Inr c \<and> redis_connect c = Inr ()"
    "http_start cfg = Ret quota"
    "\<exists>x. startup_connect (traced env) cfg (w, []) = ((w', l), Inr x) \<and>
       st = \<lparr> st_ttl_secs = word_of_nat (dedup_ttl_secs cfg), st_exchange = x \<rparr>"
    using assms(1)
    by (auto simp: receiver_main_def dedup_new_Inr split: sum.splits rust.splits prod.splits)
  then obtain x where x: "startup_connect (traced env) cfg (w, []) = ((w', l), Inr x)"
    "st = \<lparr> st_ttl_secs = word_of_nat (dedup_ttl_secs cfg), st_exchange = x \<rparr>" by blast
  have ok: "config_ok cfg" using main(1) by (rule from_env_ok)
  then have "unat (word_of_nat (dedup_ttl_secs cfg) :: u64) = dedup_ttl_secs cfg"
    by (simp add: config_ok_def unsigned_of_nat take_bit_eq_mod)
  moreover have "0 < quota_per_second quota" "0 < quota_burst quota"
    using main(3) by (auto simp: http_start_def new_rate_limiter_def split: if_splits)
  ultimately show ?thesis
    using startup_topology [OF x(1) assms(2)] x main(1,2) ok by auto
qed

lemma demo_rates:
  "from_env demo_vars = Ret cfg \<Longrightarrow> http_rate_per_second cfg = 20 \<and> http_rate_burst cfg = 50"
  by (auto simp: from_env_def bind_rust_Ret_iff demo_vars_def var_or_def demo_numbers)

theorem serving_receiver_witness:
  "\<exists>cfg w l st quota nt rs. receiver_main (traced demo_env) (\<lambda>p. Inr ()) (\<lambda>u. Inr ()) (\<lambda>c. Inr ()) (\<lambda>a. Inr ()) demo_vars
       (demo_world0, []) = ((w, l), Serving cfg st quota nt) \<and>
     l = map (\<lambda>q. Amqp_Call q (Inr ())) rs \<and>
     fanout_targets rs (lit ''events'') = {lit ''queue.transactions''}"
proof -
  obtain cfg where cfg: "from_env demo_vars = Ret cfg" "postgres_url cfg = None"
    "exchange_name cfg = lit ''events''" "dlq_exchange cfg = lit ''events.dlq''"
    "mysql_queue cfg = lit ''queue.transactions''" using demo_config by blast
  have "http_rate_per_second cfg \<noteq> 0" "http_rate_burst cfg \<noteq> 0"
    using cfg(1) demo_rates by auto
  then obtain quota where quota: "http_start cfg = Ret quota"
    by (auto simp: http_start_def new_rate_limiter_def)
  obtain w l where con: "startup_connect (traced demo_env) cfg (demo_world0, []) = ((w, l), Inr (lit ''events''))"
    using demo_calls_succeed [of demo_world0 "[]" "connect_requests (rabbitmq_url cfg) (exchange_name cfg)
        (queues_of cfg) (dlq_exchange cfg)"] cfg(3)
    by (auto simp: startup_connect_def connect_def)
  have ne: "exchange_name cfg \<noteq> dlq_exchange cfg" unfolding cfg by (simp add: lit_def)
  obtain st nt where run: "receiver_main (traced demo_env) (\<lambda>p. Inr ()) (\<lambda>u. Inr ()) (\<lambda>c. Inr ()) (\<lambda>a. Inr ()) demo_vars
      (demo_world0, []) = ((w, l), Serving cfg st quota nt)"
    using cfg(1) con quota by (simp add: receiver_main_def dedup_new_def)
  from serving_receiver [OF run ne] cfg(2,3,5) obtain rs where
    "l = map (\<lambda>q. Amqp_Call q (Inr ())) rs" "fanout_targets rs (lit ''events'') = {lit ''queue.transactions''}"
    by (auto simp: queues_of_def)
  with run show ?thesis by blast
qed

text \<open>
  C28: the limit of connections holds for one call of \<open>start\<close> only. Each restart after a failed
  \<open>accept\<close> makes a new tracker, while the tasks of the old one go on: after \<open>k\<close> calls that could bind up to
  \<open>k\<close> times the limit are connected, and when a call can fill its limit, exactly that many can be.
\<close>

theorem listener_loop_bound:
  assumes "tcp_max_connections cfg < 2 ^ 64"
  shows "size (listener_loop cfg xs) \<le> length (filter (\<lambda>x. fst x = Inr ()) xs) * tcp_max_connections cfg \<and>
    (size (snd (listener_session cfg es)) = tcp_max_connections cfg \<longrightarrow>
       size (listener_loop cfg (replicate k (Inr (), es))) = k * tcp_max_connections cfg)"
proof -
  have inv: "tracker_inv (listener_start cfg)"
    using assms by (simp add: listener_start_def tracker_new_inv)
  have zero: "total (listener_start cfg) = 0" "ip_count (listener_start cfg) = (\<lambda>_. 0)"
    by (simp_all add: listener_start_def)
  have "size (snd (listener_session cfg es)) \<le> tcp_max_connections cfg" for es
  proof -
    obtain t live where run: "conn_run (accept_admit (allowed_ips cfg)) release (listener_start cfg, {#}) es =
        (t, live)" by force
    with accept_limiter.live_within_limits [OF inv zero run] show ?thesis
      by (simp add: listener_session_def listener_start_def)
  qed
  then show ?thesis using listener_loop_size by (simp add: listener_loop_replicate)
qed

theorem listener_loop_bound_witness:
  "\<exists>cfg. tcp_max_connections cfg = 1 \<and>
     size (listener_loop cfg (replicate 3 (Inr (), [Open_Conn unspecified_v4]))) = 3"
proof -
  obtain c :: config where c: "allowed_ips c = []" "tcp_max_conn_per_ip c = 10"
    using demo_config by blast
  let ?cfg = "c\<lparr>tcp_max_connections := 1\<rparr>"
  have "snd (listener_session ?cfg [Open_Conn unspecified_v4]) = {#unspecified_v4#}"
    using c
    by (cases rule: acquire_cases [of "listener_start ?cfg" unspecified_v4])
      (simp_all add: listener_session_def conn_run_def accept_admit_cases admit_def listener_start_def)
  then have "size (listener_loop ?cfg (replicate 3 (Inr (), [Open_Conn unspecified_v4]))) = 3 * tcp_max_connections ?cfg"
    using conjunct2 [OF listener_loop_bound [of ?cfg]] by simp
  then show ?thesis by (intro exI [of _ ?cfg]) simp
qed

section \<open>The log files\<close>

text \<open>
  C26: the log is one file per hour: when directories and files open, a run of writes makes the calls
  its specification lists and no other. The first line of an hour makes its directory and opens its
  file, each line goes to the file of its own hour, and two hours never share a file, although the
  numbers in the path are not padded.
\<close>

theorem hourly_files:
  assumes "names_files fs path_of" and "working fs"
    and "writer_new (traced_files fs path_of) start (w, []) base = ((w1, l1), Inr wr)"
    and "log_run (traced_files fs path_of) (w1, l1) wr lines = ((w', l'), wr')"
  shows "l' = Made (log_dir base start) # Opened (log_path base start) # hourly_calls base start lines \<and>
    (log_path base s = log_path base t \<longleftrightarrow> s = t)"
proof -
  obtain w2 l2 r where op: "inner_open (traced_files fs path_of) (w, []) base start = ((w2, l2), r)"
    by (metis surj_pair)
  with assms(3) obtain i where i: "r = Inr i" "wr = \<lparr> wr_base = base, wr_inner = i \<rparr>" "l1 = l2"
    by (cases r) (simp_all add: writer_new_def)
  with inner_open_traced [OF op assms(1)] have
    "in_stamp i = start" "path_of (in_file i) = log_path base start"
    "l1 = [Made (log_dir base start), Opened (log_path base start)]" by auto
  with log_run_traced [OF assms(4,1)] i assms(2) show ?thesis
    by (simp add: writer_ok_def log_path_eq_iff)
qed

text \<open>
  C27: no line of the log is lost to a file that does not open: whatever opens and whatever fails after
  the start, every line is handed to a file, in order and once, and that file is the one of some hour
  of the run, named by the stamp the writer keeps.
\<close>

theorem log_keeps_lines:
  assumes "names_files fs path_of"
    and "writer_new (traced_files fs path_of) start (w, []) base = ((w1, l1), Inr wr)"
    and "log_run (traced_files fs path_of) (w1, l1) wr lines = ((w', l'), wr')"
  shows "written l' = map snd lines \<and>
    (\<forall>p b. Wrote p b \<in> set l' \<longrightarrow> (\<exists>t \<in> insert start (fst ` set lines). p = log_path base t)) \<and>
    path_of (in_file (wr_inner wr')) = log_path base (in_stamp (wr_inner wr'))"
proof -
  obtain w2 l2 r where op: "inner_open (traced_files fs path_of) (w, []) base start = ((w2, l2), r)"
    by (metis surj_pair)
  with assms(2) obtain i where i: "r = Inr i" "wr = \<lparr> wr_base = base, wr_inner = i \<rparr>" "l1 = l2"
    by (cases r) (simp_all add: writer_new_def)
  with inner_open_traced [OF op assms(1)] have
    facts: "in_stamp i = start" "path_of (in_file i) = log_path base start"
    "l1 = [Made (log_dir base start), Opened (log_path base start)]" by auto
  then have ok: "writer_ok path_of wr" and stamp: "in_stamp (wr_inner wr) = start" "wr_base wr = base"
    and l1: "written l1 = []" "Wrote p b \<notin> set l1" for p b
    using i by (simp_all add: writer_ok_def)
  note run = log_run_traced [OF assms(3,1) ok]
  have "\<exists>t \<in> insert start (fst ` set lines). p = log_path base t" if "Wrote p b \<in> set l'" for p b
    using run l1(2) that unfolding stamp by blast
  moreover have "written l' = map snd lines" "writer_ok path_of wr'" "wr_base wr' = base"
    using run l1(1) unfolding stamp by simp_all
  ultimately show ?thesis by (simp add: writer_ok_def)
qed

text \<open>Every file opens, and a handle is its path; or only those of one hour do.\<close>

definition demo_files :: "(path \<Rightarrow> bool) \<Rightarrow> (unit, path) file_system" where
  "demo_files opens =
     \<lparr> create_dir_all = (\<lambda>w p. (w, Inr ())),
       open_append = (\<lambda>w p. (w, if opens p then Inr p else Inl (lit ''EACCES''))),
       write_file = (\<lambda>w f b. (w, Inr (length b))), flush_file = (\<lambda>w f. (w, Inr ())) \<rparr>"

lemma demo_files_ok: "names_files (demo_files opens) (\<lambda>p. p)" "working (demo_files (\<lambda>p. True))"
  by (simp_all add: names_files_def working_def demo_files_def)

definition demo_stamp :: "nat \<Rightarrow> stamp" where
  "demo_stamp h = \<lparr> year = 2024, month = 6, day = 18, hour = h \<rparr>"

lemma demo_path: "log_path (lit ''log'') (demo_stamp 9) = lit ''log/2024/6/18/9.log''"
  by (simp add: log_path_def log_dir_def path_join_def demo_stamp_def int_str_def dec_str.simps lit_def)

theorem hourly_files_witness:
  "\<exists>w l wr. log_run (traced_files (demo_files (\<lambda>p. True)) (\<lambda>p. p))
       (fst (writer_new (traced_files (demo_files (\<lambda>p. True)) (\<lambda>p. p)) (demo_stamp 9) ((), []) (lit ''log'')))
       \<lparr> wr_base = lit ''log'',
         wr_inner = \<lparr> in_file = log_path (lit ''log'') (demo_stamp 9), in_stamp = demo_stamp 9 \<rparr> \<rparr>
       [(demo_stamp 9, [1]), (demo_stamp 10, [2])] = ((w, l), wr) \<and>
     l ! 2 = Wrote (lit ''log/2024/6/18/9.log'') [1]"
proof -
  let ?fs = "traced_files (demo_files (\<lambda>p. True)) (\<lambda>p. p)"
  let ?wr = "\<lparr> wr_base = lit ''log'',
      wr_inner = \<lparr> in_file = log_path (lit ''log'') (demo_stamp 9), in_stamp = demo_stamp 9 \<rparr> \<rparr>"
  obtain w1 l1 where new: "writer_new ?fs (demo_stamp 9) ((), []) (lit ''log'') = ((w1, l1), Inr ?wr)"
    by (simp add: writer_new_def inner_open_def traced_files_def demo_files_def)
  obtain w l wr where run: "log_run ?fs (w1, l1) ?wr [(demo_stamp 9, [1]), (demo_stamp 10, [2])] = ((w, l), wr)"
    by (metis surj_pair)
  from conjunct1 [OF hourly_files [OF demo_files_ok new run]]
  have "l ! 2 = Wrote (lit ''log/2024/6/18/9.log'') [1]" by (simp add: demo_path)
  with new run show ?thesis by simp
qed

theorem log_keeps_lines_witness:
  "\<exists>w l wr. log_run (traced_files (demo_files (\<lambda>p. p = lit ''log/2024/6/18/9.log'')) (\<lambda>p. p))
       ((), [Made (log_dir (lit ''log'') (demo_stamp 9)), Opened (log_path (lit ''log'') (demo_stamp 9))])
       \<lparr> wr_base = lit ''log'',
         wr_inner = \<lparr> in_file = log_path (lit ''log'') (demo_stamp 9), in_stamp = demo_stamp 9 \<rparr> \<rparr>
       [(demo_stamp 9, [1]), (demo_stamp 10, [2])] = ((w, l), wr) \<and> written l = [[1], [2]]"
proof -
  let ?fs = "traced_files (demo_files (\<lambda>p. p = lit ''log/2024/6/18/9.log'')) (\<lambda>p. p)"
  let ?wr = "\<lparr> wr_base = lit ''log'',
      wr_inner = \<lparr> in_file = log_path (lit ''log'') (demo_stamp 9), in_stamp = demo_stamp 9 \<rparr> \<rparr>"
  let ?l1 = "[Made (log_dir (lit ''log'') (demo_stamp 9)), Opened (log_path (lit ''log'') (demo_stamp 9))]"
  have new: "writer_new ?fs (demo_stamp 9) ((), []) (lit ''log'') = (((), ?l1), Inr ?wr)"
    by (simp add: writer_new_def inner_open_def traced_files_def demo_files_def demo_path)
  obtain w l wr where run: "log_run ?fs ((), ?l1) ?wr [(demo_stamp 9, [1]), (demo_stamp 10, [2])] = ((w, l), wr)"
    by (metis surj_pair)
  from log_keeps_lines [OF demo_files_ok(1) new run] run show ?thesis by simp
qed

end
