(* ===== verification/System_Properties.thy ===== *)
theory System_Properties
  imports Published Program_Properties
begin

text \<open>
  The system from end to end: the requests of the receiver as interleaved tasks, the exchange as the
  log of what they publish, and the programs of the two consumers over their restarts. The broker is
  taken at its word in one point only: what it delivers, as often as it likes, was published.
\<close>

section \<open>The tables and the telegrams\<close>

lemma acked_carries:
  assumes "\<forall>x \<in> set sessions. \<forall>d \<in> set (arrivals (snd x)). P d"
    and "set (acked_in l) \<subseteq> (\<Union>x \<in> set sessions. set (arrivals (snd x)))"
  shows "\<forall>d \<in> set (acked_in l). P d"
  using assms by blast

lemma day_rows_of_requests:
  assumes "\<forall>d \<in> set ds. day_row sk ch d = Ret (map_option snd (rows (src d)))"
  shows "day_rows sk ch ds = List.map_filter (\<lambda>d. map_option snd (rows (src d))) ds"
  unfolding day_rows_def by (rule map_filter_eq) (use assms in simp)

lemma row_weights_of_requests:
  assumes "\<forall>d \<in> set ds. row_of sk d = map_option fst (rows (src d))"
  shows "sum_list (map (row_weight sk) ds) = mset (map (\<lambda>k. (insert_sql (table k), row_binds k))
    (List.map_filter (\<lambda>d. map_option fst (rows (src d))) ds))"
  using assms by (induction ds) (auto simp: row_weight_def List.map_filter_simps split: option.split)

text \<open>What a delivery of a published request is to a consumer.\<close>

definition telegram_delivery ::
  "('w, 'k, 'q) sink \<Rightarrow> chrono \<Rightarrow> (nat \<Rightarrow> (kicc_row \<times> daily_row) option) \<Rightarrow> delivery \<Rightarrow> nat \<Rightarrow> bool" where
  "telegram_delivery sk ch rows d i \<longleftrightarrow>
     row_of sk d = map_option fst (rows i) \<and> day_row sk ch d = Ret (map_option snd (rows i)) \<and>
     mysql_fine sk d \<and> pg_fine sk ch d \<and> day_small sk ch d \<and>
     \<not> settled_unstored sk d Nack_Drop \<and> \<not> day_unstored sk ch d Nack_Drop"

lemma request_deliveries:
  assumes s: "s = run_schedule env st qs (tasks_start w) sch"
    and libs: "decodes_ascii (euc_kr_decode env)" "chrono_ok ch"
    and rows: "\<forall>i. request_rows ch (qs i) (rows i)"
    and json: "\<forall>i m. may_publish env (qs i) m \<longrightarrow> survives_queue env sk m"
    and broker: "\<forall>x \<in> set sessions. \<forall>d \<in> set (arrivals (snd x)). carries_request (ts_log s) d (src d)"
  shows "\<forall>x \<in> set sessions. \<forall>d \<in> set (arrivals (snd x)). telegram_delivery sk ch rows d (src d)"
proof (intro ballI)
  fix x d assume xd: "x \<in> set sessions" "d \<in> set (arrivals (snd x))"
  then have c: "carries_request (ts_log (run_schedule env st qs (tasks_start w) sch)) d (src d)"
    using broker unfolding s by blast
  have j: "\<And>m. may_publish env (qs (src d)) m \<Longrightarrow> survives_queue env sk m" using json by blast
  note facts = delivery_rows [OF c rows [rule_format] libs j] delivery_fine [OF c rows [rule_format] libs j]
  have "small_totals (dr_totals y)" if "rows i = Some (k, y)" for i k y
    using rows [rule_format, of i] that card_daily_row_small
    by (auto simp: request_rows_def card_ok_def split: ingest_request.splits)
  with facts(2) have "day_small sk ch d" by (auto simp: day_small_def)
  with facts show "telegram_delivery sk ch rows d (src d)" by (simp add: telegram_delivery_def)
qed

lemma daily_totals:
  assumes del: "\<forall>x \<in> set sessions. \<forall>d \<in> set (arrivals (snd x)). telegram_delivery sk ch rows d (src d)"
    and db: "daily_database sk tbl"
    and run: "pg_main (traced_sink sk) ch open_log pool vs (v, []) sessions = ((v', l), r)"
    and size: "\<forall>cfg. from_env vs = Ret cfg \<longrightarrow> pgsql_batch_size cfg \<le> 65535"
  shows "tbl v' = after_rows (tbl v)
    (map keyed (List.map_filter (\<lambda>d. map_option snd (rows (src d))) (acked_in l)))"
proof -
  have "tbl v' = after_rows (tbl v) (map keyed (day_rows sk ch (acked_in l)))"
    by (rule pg_main_refines [OF db run size]) (use del in \<open>simp add: telegram_delivery_def\<close>)
  moreover have "\<forall>d \<in> set (acked_in l). telegram_delivery sk ch rows d (src d)"
    using del pg_main_acked [OF run] by (rule acked_carries)
  then have "day_rows sk ch (acked_in l) = List.map_filter (\<lambda>d. map_option snd (rows (src d))) (acked_in l)"
    by (intro day_rows_of_requests) (simp add: telegram_delivery_def)
  ultimately show ?thesis by (simp only:)
qed

lemma table_rows:
  assumes del: "\<forall>x \<in> set sessions. \<forall>d \<in> set (arrivals (snd x)). telegram_delivery sk ch rows d (src d)"
    and run: "mysql_main (traced_sink sk) open_log pool vs (v, []) sessions = ((v', l), r)"
  shows "inserted_rows (stored_in l) = mset (map (\<lambda>k. (insert_sql (table k), row_binds k))
    (List.map_filter (\<lambda>d. map_option fst (rows (src d))) (acked_in l)))"
proof -
  have "\<forall>d \<in> set (acked_in l). telegram_delivery sk ch rows d (src d)"
    using del mysql_main_acked [OF run] by (rule acked_carries)
  then have "\<forall>d \<in> set (acked_in l). row_of sk d = map_option fst (rows (src d))"
    by (simp add: telegram_delivery_def)
  from row_weights_of_requests [of "acked_in l" sk rows src, OF this] show ?thesis using mysql_main_stores [OF run] by simp
qed

section \<open>An instance\<close>

text \<open>One telegram and any number of HTTP events; each consumer gets the telegram and a tick.\<close>

definition demo_mix :: "nat \<Rightarrow> ingest_request" where
  "demo_mix i = (if i = 0 then Tcp_Frame (telegram demo_card) else Http_Event demo_event)"

definition demo_mix_rows :: "nat \<Rightarrow> (kicc_row \<times> daily_row) option" where
  "demo_mix_rows i =
     (if i = 0 then Some (card_kicc_row demo_card 50000, card_daily_row demo_card 19892 14 50000) else None)"

abbreviation demo_mix_run :: "demo_world tasks_state" where
  "demo_mix_run \<equiv> run_schedule pipe_env demo_state demo_mix (tasks_start demo_world0) [0, 0, 0]"

abbreviation telegram_session :: session where
  "telegram_session \<equiv> (0, [Incoming (demo_deliveries ! 0), Tick])"

lemma demo_card_ok: "card_ok demo_chrono demo_card 19892 14 50000"
  unfolding card_ok_def demo_card_nth
  by (simp add: demo_fields_ok demo_digits demo_amount demo_hour demo_chrono_ok(2)) (simp add: lit_def)

lemma demo_mix_request_rows: "request_rows demo_chrono (demo_mix i) (demo_mix_rows i)"
  using demo_card_ok by (auto simp: request_rows_def demo_mix_def demo_mix_rows_def)

lemma demo_mix_survives:
  assumes "may_publish pipe_env (demo_mix i) m"
    and "\<And>b. from_slice sk [1] = Inr (card_message demo_card 1000)"
  shows "survives_queue pipe_env sk m"
  using assms by (simp add: survives_queue_def same_message_def)

lemma demo_mix_dec: "decodes_ascii (euc_kr_decode pipe_env)"
  by (simp add: demo_decodes_ascii)

lemma demo_mix_json:
  "\<forall>i m. may_publish pipe_env (demo_mix i) m \<longrightarrow> survives_queue pipe_env (demo_sink :: unit mysql_sink) m"
  "\<forall>i m. may_publish pipe_env (demo_mix i) m \<longrightarrow> survives_queue pipe_env demo_database m"
  by (intro allI impI; rule demo_mix_survives; simp add: demo_database_def)+

lemma demo_mix_carries: "carries_request (ts_log demo_mix_run) (demo_deliveries ! 0) 0"
proof -
  obtain w' es r p where run: "process_frame (traced pipe_env) demo_state (demo_world0, []) (telegram demo_card) =
      ((w', es), r)" "Publish_Call p (Inr 0) \<in> set es" using pipe_run by blast
  then have "ingest_step pipe_env demo_state (ts_world (tasks_start demo_world0), []) (demo_mix 0) = (w', es)"
    by (simp add: ingest_step_def demo_mix_def tasks_start_def)
  from run_alone [of "tasks_start demo_world0" 0 pipe_env demo_state demo_mix w' es, OF _ this]
  have "ts_log demo_mix_run = map (Pair 0) es" by (simp add: tasks_start_def del: run_schedule.simps)
  then have "(0, Publish_Call p (Inr 0)) \<in> set (ts_log demo_mix_run)" using run(2) by simp
  moreover from published_message [OF this] have "pub_body p = [1]"
    by (auto simp: publication_of_def split: if_splits)
  ultimately show ?thesis unfolding carries_request_def by (auto simp: demo_deliveries_def)
qed

text \<open>
  C2: every amount in the daily totals is that of a telegram. Whatever HTTP events and well-formed card
  telegrams the receiver handled, under every interleaving of their tasks, and whatever the broker and
  the database did to the PostgreSQL consumer and however often it was restarted: its table is the
  one it found with, for each delivery it acknowledged, the row of the telegram that was published in
  it, of that telegram's hour, terminal and amount, added as integers; an HTTP event adds nothing.
\<close>

theorem totals_come_from_telegrams:
  assumes s: "s = run_schedule env st qs (tasks_start w) sch"
    and libs: "decodes_ascii (euc_kr_decode env)" "chrono_ok ch"
    and rows: "\<forall>i. request_rows ch (qs i) (rows i)"
    and json: "\<forall>i m. may_publish env (qs i) m \<longrightarrow> survives_queue env sk m"
    and broker: "\<forall>x \<in> set sessions. \<forall>d \<in> set (arrivals (snd x)). carries_request (ts_log s) d (src d)"
    and db: "daily_database sk tbl"
    and run: "pg_main (traced_sink sk) ch open_log pool vs (v, []) sessions = ((v', l), r)"
    and size: "\<forall>cfg. from_env vs = Ret cfg \<longrightarrow> pgsql_batch_size cfg \<le> 65535"
  shows "tbl v' = after_rows (tbl v)
    (map keyed (List.map_filter (\<lambda>d. map_option snd (rows (src d))) (acked_in l)))"
  using request_deliveries [OF s libs rows json broker] db run size by (rule daily_totals)

lemma telegram_pg_main:
  assumes "from_env vs = Ret cfg" and "pgsql_batch_size cfg = 100"
    and "pgsql_batch_interval_secs cfg = 1" and "postgres_url cfg = Some u"
  shows "\<exists>T q. pg_main (traced_sink demo_database) demo_chrono (\<lambda>p. Inr ()) (\<lambda>u n. Inr ()) vs
      (Map.empty, []) [telegram_session] =
        ((T, [Executed q (Inr ()), Settled (demo_deliveries ! 0) Ack]), Service (Running pg_state0))"
proof -
  obtain T where T: "apply_upsert (upsert_of [\<lparr> ts_unix = word_of_int (86400 * 19892 + 3600 * 14 - 9 * 3600),
      dr_bid = lit ''1234567890'', dr_mid = lit ''M0001'', dr_psn = lit ''T123456'',
      dr_totals = Totals 0 0 0 0 0 0 50000 1 \<rparr>]) Map.empty = Some T" using demo_apply by blast
  have vals: "agg_values sk w (agg_add [] row) = [row]" for sk w row
    by (simp add: agg_values_def agg_add_def hash_order_def List.map_filter_def)
  show ?thesis
    using assms T
    by (simp add: pg_main_def postgres_consumer_url_def pg_session_def demo_deliveries_def pg_run_def
        run_consumer_def setup_requests_def traced_sink_def demo_database_def pg_step_def
        pg_flush_full_def pg_flush_def demo_daily pg_state0_def vals)
qed

theorem totals_come_from_telegrams_witness:
  "\<exists>T l s. pg_main (traced_sink demo_database) demo_chrono (\<lambda>p. Inr ()) (\<lambda>u n. Inr ()) demo_pg_vars
       (Map.empty, []) [telegram_session] = ((T, l), Service s) \<and>
     T = after_rows Map.empty [keyed (card_daily_row demo_card 19892 14 50000)]"
proof -
  obtain cfg where cfg: "from_env demo_pg_vars = Ret cfg" "pgsql_batch_size cfg = 100"
    "pgsql_batch_interval_secs cfg = 1" "postgres_url cfg = Some (lit ''postgres://db/card'')"
    using demo_pg_batches by blast
  obtain T q where run: "pg_main (traced_sink demo_database) demo_chrono (\<lambda>p. Inr ()) (\<lambda>u n. Inr ()) demo_pg_vars
      (Map.empty, []) [telegram_session] =
        ((T, [Executed q (Inr ()), Settled (demo_deliveries ! 0) Ack]), Service (Running pg_state0))"
    using telegram_pg_main [OF cfg] by blast
  have "T = after_rows Map.empty (map keyed (List.map_filter (\<lambda>d. map_option snd (demo_mix_rows 0))
      (acked_in [Executed q (Inr ()), Settled (demo_deliveries ! 0) Ack])))"
    by (rule totals_come_from_telegrams [OF refl [of demo_mix_run] demo_mix_dec demo_chrono_ok(1) _ demo_mix_json(2) _ demo_database_ok run])
      (use cfg demo_mix_request_rows demo_mix_carries in \<open>simp_all del: run_schedule.simps\<close>)
  then show ?thesis using run by (simp add: List.map_filter_simps demo_mix_rows_def)
qed

text \<open>
  C3: every row of the business tables is that of a telegram. In the same setting the MySQL consumer
  gives its tables, under the statement of the telegram's own table, the row of the telegram of each
  delivery it acknowledged and no other; no HTTP event ever writes a row.
\<close>

theorem rows_come_from_telegrams:
  assumes s: "s = run_schedule env st qs (tasks_start w) sch"
    and libs: "decodes_ascii (euc_kr_decode env)" "chrono_ok ch"
    and rows: "\<forall>i. request_rows ch (qs i) (rows i)"
    and json: "\<forall>i m. may_publish env (qs i) m \<longrightarrow> survives_queue env sk m"
    and broker: "\<forall>x \<in> set sessions. \<forall>d \<in> set (arrivals (snd x)). carries_request (ts_log s) d (src d)"
    and run: "mysql_main (traced_sink sk) open_log pool vs (v, []) sessions = ((v', l), r)"
  shows "inserted_rows (stored_in l) = mset (map (\<lambda>k. (insert_sql (table k), row_binds k))
    (List.map_filter (\<lambda>d. map_option fst (rows (src d))) (acked_in l)))"
  using request_deliveries [OF s libs rows json broker] run by (rule table_rows)

theorem rows_come_from_telegrams_witness:
  "\<exists>w l s. mysql_main (traced_sink demo_sink) (\<lambda>p. Inr ()) (\<lambda>u n. Inr ()) demo_vars ((), [])
       [telegram_session] = ((w, l), Service s) \<and>
     inserted_rows (stored_in l) =
       {#(insert_sql (lit ''kicc_b1234567890''), row_binds (card_kicc_row demo_card 50000))#}"
proof -
  obtain cfg where cfg: "from_env demo_vars = Ret cfg" "mysql_batch_size cfg = 100"
    "mysql_batch_interval_secs cfg = 1" using demo_batches by blast
  obtain q where run: "mysql_main (traced_sink demo_sink) (\<lambda>p. Inr ()) (\<lambda>u n. Inr ()) demo_vars ((), [])
      [telegram_session] = (((), [Executed q (Inr ()), Settled (demo_deliveries ! 0) Ack]),
        Service (Running mysql_state0))"
    using demo_kicc cfg
    by (auto simp: mysql_demo_defs split: prod.splits)
  have "inserted_rows (stored_in [Executed q (Inr ()), Settled (demo_deliveries ! 0) Ack]) =
      mset (map (\<lambda>k. (insert_sql (table k), row_binds k))
        (List.map_filter (\<lambda>d. map_option fst (demo_mix_rows 0))
          (acked_in [Executed q (Inr ()), Settled (demo_deliveries ! 0) Ack])))"
    by (rule rows_come_from_telegrams [OF refl [of demo_mix_run] demo_mix_dec demo_chrono_ok(1) _ demo_mix_json(1) _ run])
      (use demo_mix_request_rows demo_mix_carries in \<open>simp_all del: run_schedule.simps\<close>)
  moreover have "table (card_kicc_row demo_card 50000) = lit ''kicc_b1234567890''"
    unfolding card_kicc_row_def demo_card_nth by (simp add: lit_def)
  ultimately show ?thesis using run by (simp add: List.map_filter_simps demo_mix_rows_def)
qed

end
