(* ===== verification/System_Recovery.thy ===== *)
theory System_Recovery
  imports System_Properties
begin

text \<open>
  The system over failures: consumers that crash, lose their channel or are restarted, with a broker
  that delivers again what was not settled. No telegram that reached a consumer is missing from its
  tables, and one that was delivered twice is in them twice.
\<close>

section \<open>At least once\<close>







section \<open>An instance\<close>




section \<open>No telegram is missing\<close>






section \<open>At least once is not once\<close>




end
