(* ===== verification/Spec2Isabelle.thy ===== *)
theory Spec2Isabelle
  imports Tracker_Steps Parser_Properties Listener_Tasks System_Recovery
begin

text \<open>
  A model of the realtime-ingestion service, a Rust program of three executables.

  The program. The receiver (\<open>src/src/main.rs\<close>) takes card telegrams over TCP
  (\<open>tcp_listener.rs\<close>, \<open>parser.rs\<close>) and events over HTTP (\<open>receiver.rs\<close>, behind the middlewares of
  \<open>security.rs\<close>). Both paths register the id of the message in Redis with an expiring key
  (\<open>dedup.rs\<close>) and publish a new message to a fanout exchange of RabbitMQ (\<open>producer.rs\<close>), from which
  two queues are fed. Two more executables (\<open>bin/consumer_mysql.rs\<close>, \<open>bin/consumer_postgres.rs\<close>)
  each take one queue: \<open>consumer/mysql.rs\<close> inserts a row per telegram into a table per business
  number, \<open>consumer/postgres.rs\<close> adds amounts and counts to a table of totals per hour. All three read
  \<open>config.rs\<close>, write hourly log files (\<open>logger.rs\<close>) and send alerts (\<open>telegram.rs\<close>).

  Conventions. A Rust string is a list of code points (\<open>rstr\<close>) with its length in bytes as
  \<open>byte_len\<close>; bytes are 8-bit words, \<open>i64\<close>, \<open>i32\<close> and \<open>usize\<close> are words where they can wrap. A panic is
  the value \<open>Panic\<close> of the type \<open>rust\<close>, an error the left side of a sum. Code outside the repository is
  an argument: the record \<open>env\<close> (clock, EUC-KR decoder, Redis, JSON, RabbitMQ of the receiver), the
  record \<open>sink\<close> (broker, JSON, SQL pool, HTTP client of a consumer), \<open>chrono\<close> (dates), \<open>file_system\<close>,
  and the answer of the rate limiter. Each works on a world of a type that is left open, and
  \<open>traced\<close>, \<open>traced_sink\<close> and \<open>traced_files\<close> turn such a record into one that also writes down every
  call with its result: statements on what the program does are statements on that list.
\<close>

text \<open>
  The theories and the code.

  \<^item> \<open>Prelude\<close>, \<open>Rust_Str\<close>, \<open>Net_Addr\<close>, \<open>Models\<close>: results and panics, words, slices; the string
    functions the code calls (trim, slices at character boundaries, decimal parsing and printing);
    \<open>IpAddr\<close> parsing; the records of \<open>models.rs\<close> and JSON values.
  \<^item> \<open>Services\<close>, \<open>Dedup\<close>, \<open>Producer\<close>, \<open>Receiver\<close>, \<open>Ingest\<close>: the record \<open>env\<close>; \<open>is_new\<close>; \<open>connect\<close> as
    the list of its requests and \<open>publish\<close>; \<open>validate_event\<close> and \<open>handle_event\<close>; a contract (locale
    \<open>ingest_path\<close>) for a way into the broker, that HTTP, TCP and their mixture satisfy. \<open>Ingest_Steps\<close>
    has the same requests as interleaved tasks, at the grain of their calls to Redis and RabbitMQ,
    \<open>Ingest_Time\<close> the life of a registration when keys expire, and \<open>Published\<close> what the exchange gets
    of each request and the rows that come of it.
  \<^item> \<open>Masking\<close>, \<open>Conn_Limiter\<close>, \<open>Security\<close>, \<open>Tracker_Steps\<close>: \<open>security.rs\<close>. The masks meet the locale
    \<open>field_masker\<close>; \<open>acquire\<close> and \<open>release\<close> as whole operations meet the locale \<open>conn_limiter\<close>; and
    \<open>track_step\<close> is their interleaving, one step per access to the shared counters.
  \<^item> \<open>Parser\<close>, \<open>Framing\<close>, \<open>Tcp_Listener\<close>: \<open>parser.rs\<close> with the telegram layout as a printer;
    the framing of \<open>extract_frame\<close> against the locale \<open>frame_source\<close>; \<open>drain_loop\<close> and
    \<open>handle_connection\<close> over the list of reads; answers; the accept decision.
  \<^item> \<open>Telegram\<close>, \<open>Consumer_Core\<close>, \<open>Consumer_Mysql\<close>, \<open>Consumer_Postgres\<close>, \<open>Consumer_Life\<close>: alerts; what
    both consumers share (requests of the start, verdicts, the run over deliveries, ticks and channel
    errors) with the contracts \<open>batch_consumer\<close>, \<open>storing_consumer\<close> (nothing is lost, doubled or
    acknowledged without being stored) and \<open>live_consumer\<close> (a tick settles everything); and the two
    consumers, which interpret all three.
  \<^item> \<open>Daily_Table\<close>, \<open>Daily_Refinement\<close>, \<open>Card_Rows\<close>, \<open>Pipeline\<close>: the upsert as a function on the table
    with sums in integers as its specification; a telegram's rows; the way from the listener to both
    tables.
  \<^item> \<open>Config\<close>, \<open>Startup\<close>, \<open>Logger\<close>, \<open>Programs\<close>: \<open>from_env\<close> over a map of variables; the start of the
    receiver and its routes; the log writer; the three \<open>main\<close> functions from the environment file on,
    with their restart loops, and the task of a TCP connection with its alert; \<open>Listener_Tasks\<close> is one call of
    \<open>start\<close> with its accepts and all its tasks in any order.
    \<open>Program_Life\<close> lifts what a run of a consumer does to its restarts.
  \<^item> \<open>Demo_Env\<close> and the theories named \<open>..._Properties\<close>: concrete instances of the parameters, and the
    properties with their witnesses; those of the whole system, from the requests to the tables over
    all restarts, are in \<open>System_Properties\<close> and \<open>System_Recovery\<close>.
\<close>

text \<open>
  What is shown.

  \<^item> End to end: from requests interleaved at the receiver to the tables of consumers that crash and
    restart, the daily table is the initial one with the rows of the acknowledged telegrams added as
    integers (although the code sums in words and in batches), and the MySQL tables are given exactly
    their rows; an event that came over HTTP is in neither. When the broker delivers again what a lost
    channel left unsettled, and no statement fails, no telegram that was received is missing; one
    whose acknowledgement was lost is stored twice.
  \<^item> The filter: each id is published at most once while its key lives, under every interleaving of the
    tasks, whose uninterrupted moves are the handlers; with keys that expire, two registrations of
    one id are at least \<open>ttl_secs\<close> apart.
  \<^item> Consumers: every delivery is settled once, by a verdict its data and its statement determine;
    none is lost, neither in a run nor over restarts when the broker gives again what was left
    unsettled; a program ends only for the reasons listed.
  \<^item> Listener: frames are served in order however the bytes arrive; connections do not mix, and each way
    a task ends gives its slot back; work and answers are bounded by
    what was received; answers are what the specification of \<open>build_response\<close> says.
  \<^item> Security: at most \<open>max_total\<close> guards in every interleaving, the race on the limit per address, no
    event without the key, masks that hide and are stable, statements free of injected SQL.
  \<^item> Programs: which configurations start, in which order the services are used, hourly files.
  \<^item> Several theorems and lemmas state behaviour the authors will not have meant: a panic after
    publishing, the stall on an empty header, the buffer without bound, a lost id after a failed
    publication, the messages that crash a consumer for ever, a prefetch smaller than a batch.
\<close>

text \<open>
  Hypotheses. \<open>decodes_ascii\<close>: EUC-KR decoding is the identity on ASCII. \<open>redis_nx\<close>: \<open>SET NX\<close> answers OK
  exactly for a key it does not hold and keeps it, so "once" under it means within the life of a key;
  \<open>redis_expiry\<close>: a key that is set is held until its time to live is over, and time does not go back.
  The broker: what it delivers was published (\<open>carries_request\<close>), and what a run left unsettled
  is delivered again (\<open>owed\<close>); \<open>reachable_services\<close>: the consumer's requests to the broker succeed,
  asked only of the run that settles what is owed. \<open>survives_queue\<close>: a published message reads the same after JSON and
  back. \<open>chrono_ok\<close>: an offset from the date and hour. \<open>daily_database\<close>: a statement that succeeds has
  had the effect \<open>apply_upsert\<close> gives it, one that fails none. Each is met by a concrete instance.

  Termination and bounds. The only fuel is the argument of \<open>take_frames\<close>, the number
  of extractions of the framing specification: the length of the buffer, enough by
  \<open>take_frames_enough\<close>. The only loop without a list to run over is
  \<open>drain_loop\<close>, whose measure is the buffer, since every frame takes at least five bytes from it; the
  endless loops (reads, deliveries, restarts, accepts) run over the list of what happens to them. Sums of a batch
  are exact for up to 65535 messages, the most a prefetch of 16 bits leaves unsettled, with amounts
  that fit the ten digits of a telegram.

  Not modelled: log output and its subscriber, the serving of HTTP by axum over the modelled handlers,
  the write of the response to the client, the token bucket of \<open>governor\<close>, and memory exhaustion. Tasks are
  interleaved where they share state: at the counters of the tracker, at Redis and RabbitMQ, and read by
  read at the listener; a
  command of Redis or RabbitMQ is one step. The SQL migrations, service units and build script hold no program code; the
  module lists only name files.

  Left for later: the JSON text of a message, of which only \<open>survives_queue\<close> is asked.
\<close>

end
